theory Spec2Isabelle
  imports Main "HOL-Library.Char_ord" "HOL-Library.List_Lexorder" "HOL-Library.Multiset"
begin

section \<open>Strings\<close>

text \<open>
  The C\# service and the TypeScript client both work on UTF-16 strings. They are modelled as
  \<^typ>\<open>string\<close>; white space is the ASCII white space and case mapping is the ASCII one
  (every other character is its own upper and lower case). A C\# reference that may be
  \<open>null\<close> is a \<^typ>\<open>string option\<close>.
\<close>

definition is_white_space :: "char \<Rightarrow> bool" where
  "is_white_space c = (c \<in> {CHR '' '', CHR 0x09, CHR 0x0A, CHR 0x0B, CHR 0x0C, CHR 0x0D})"

definition is_blank :: "string \<Rightarrow> bool" where
  "is_blank s = list_all is_white_space s"

definition IsNullOrWhiteSpace :: "string option \<Rightarrow> bool" where
  "IsNullOrWhiteSpace s = (case s of None \<Rightarrow> True | Some t \<Rightarrow> is_blank t)"

definition trim :: "string \<Rightarrow> string" where
  "trim s = rev (dropWhile is_white_space (rev (dropWhile is_white_space s)))"

definition is_upper :: "char \<Rightarrow> bool" where
  "is_upper c = (65 \<le> (of_char c :: nat) \<and> (of_char c :: nat) \<le> 90)"

definition is_lower :: "char \<Rightarrow> bool" where
  "is_lower c = (97 \<le> (of_char c :: nat) \<and> (of_char c :: nat) \<le> 122)"

definition to_upper_char :: "char \<Rightarrow> char" where
  "to_upper_char c = (if is_lower c then char_of ((of_char c :: nat) - 32) else c)"

definition to_lower_char :: "char \<Rightarrow> char" where
  "to_lower_char c = (if is_upper c then char_of ((of_char c :: nat) + 32) else c)"

definition to_upper :: "string \<Rightarrow> string" where
  "to_upper s = map to_upper_char s"

definition to_lower :: "string \<Rightarrow> string" where
  "to_lower s = map to_lower_char s"

text \<open>\<open>a.StartsWith(b)\<close> and \<open>a.Contains(b)\<close>, both ordinal.\<close>

fun starts_with :: "string \<Rightarrow> string \<Rightarrow> bool" where
  "starts_with s [] = True"
| "starts_with [] (c # cs) = False"
| "starts_with (d # ds) (c # cs) = (d = c \<and> starts_with ds cs)"

fun contains :: "string \<Rightarrow> string \<Rightarrow> bool" where
  "contains [] n = (n = [])"
| "contains (c # cs) n = (starts_with (c # cs) n \<or> contains cs n)"

text \<open>
  \<open>s.Split(d)\<close> with no option: every piece between two delimiters, the empty ones too;
  the empty string gives one empty piece.
\<close>

fun split_on :: "char \<Rightarrow> string \<Rightarrow> string list" where
  "split_on d [] = [[]]"
| "split_on d (c # cs) =
     (if c = d then [] # split_on d cs
      else (case split_on d cs of [] \<Rightarrow> [[c]] | p # ps \<Rightarrow> (c # p) # ps))"

text \<open>\<open>string.Equals(a, b, StringComparison.OrdinalIgnoreCase)\<close> on two non-null strings.\<close>

definition equals_ignore_case :: "string \<Rightarrow> string \<Rightarrow> bool" where
  "equals_ignore_case a b = (to_upper a = to_upper b)"

section \<open>The query engine (InventoryService)\<close>

subsection \<open>Data model\<close>

text \<open>
  Modelled from the spec: the model classes \<open>InventoryItem\<close>, \<open>InventorySearchRequest\<close>,
  \<open>SearchResult\<close>, \<open>BranchAvailability\<close> and \<open>AvailabilityResult\<close> are not among the
  sources. Their fields are the ones the specification lists and the service, the repository
  and the controller read and write. \<open>int\<close> is C\#'s 32-bit signed integer: the model uses
  \<^typ>\<open>int\<close> and writes out the wrap-around of unchecked arithmetic and the range check of
  checked arithmetic where the service computes. A \<open>DateTime\<close> is its tick count. The lots
  of an item take no part in searching or aggregation and are left out.
\<close>

record InventoryItem =
  PartNumber :: "string option"
  SupplierSku :: "string option"
  Description :: "string option"
  Branch :: "string option"
  AvailableQty :: int
  Uom :: "string option"
  LeadTimeDays :: "int option"
  LastPurchaseDate :: "int option"

record InventorySearchRequest =
  Criteria :: "string option"
  By :: "string option"
  Branches :: "string option"
  OnlyAvailable :: bool
  Page :: int
  Size :: int
  Sort :: "string option"

record SearchResult =
  Total :: int
  Items :: "InventoryItem list"

record BranchAvailability =
  ba_Branch :: string
  Qty :: int

record AvailabilityResult =
  ar_PartNumber :: "string option"
  TotalAvailable :: int
  ar_Branches :: "BranchAvailability list"

datatype error = ArgumentNullException | ArgumentException | OverflowException

subsection \<open>32-bit arithmetic\<close>

definition int_MaxValue :: int where
  "int_MaxValue = 2147483647"

definition int_MinValue :: int where
  "int_MinValue = - 2147483648"

definition in_int32 :: "int \<Rightarrow> bool" where
  "in_int32 x = (int_MinValue \<le> x \<and> x \<le> int_MaxValue)"

text \<open>The value an unchecked 32-bit operation keeps of the exact result.\<close>

definition wrap32 :: "int \<Rightarrow> int" where
  "wrap32 x = (x + 2147483648) mod 4294967296 - 2147483648"

text \<open>
  \<open>Enumerable.Sum\<close> over \<open>int\<close> adds in a checked context, left to right, and throws
  \<open>OverflowException\<close> as soon as a partial sum leaves the 32-bit range.
\<close>

fun checked_sum_from :: "int \<Rightarrow> int list \<Rightarrow> error + int" where
  "checked_sum_from acc [] = Inr acc"
| "checked_sum_from acc (x # xs) =
     (if in_int32 (acc + x) then checked_sum_from (acc + x) xs else Inl OverflowException)"

definition Sum :: "int list \<Rightarrow> error + int" where
  "Sum xs = checked_sum_from 0 xs"

subsection \<open>LINQ operators\<close>

text \<open>
  \<open>OrderBy\<close> and \<open>OrderByDescending\<close> are stable sorts by a key: elements with equal keys
  keep their input order in both directions. The comparison \<open>le\<close> of two keys is a
  parameter.
\<close>

fun insert_by :: "('k \<Rightarrow> 'k \<Rightarrow> bool) \<Rightarrow> ('a \<Rightarrow> 'k) \<Rightarrow> 'a \<Rightarrow> 'a list \<Rightarrow> 'a list" where
  "insert_by le f x [] = [x]"
| "insert_by le f x (y # ys) =
     (if le (f x) (f y) then x # y # ys else y # insert_by le f x ys)"

definition OrderBy :: "('k \<Rightarrow> 'k \<Rightarrow> bool) \<Rightarrow> ('a \<Rightarrow> 'k) \<Rightarrow> 'a list \<Rightarrow> 'a list" where
  "OrderBy le f xs = foldr (insert_by le f) xs []"

definition OrderByDescending :: "('k \<Rightarrow> 'k \<Rightarrow> bool) \<Rightarrow> ('a \<Rightarrow> 'k) \<Rightarrow> 'a list \<Rightarrow> 'a list" where
  "OrderByDescending le f xs = foldr (insert_by (\<lambda>a b. le b a) f) xs []"

text \<open>\<open>Skip(n)\<close> and \<open>Take(n)\<close>: a count that is zero or negative skips or takes nothing.\<close>

definition Skip :: "int \<Rightarrow> 'a list \<Rightarrow> 'a list" where
  "Skip n xs = drop (nat n) xs"

definition Take :: "int \<Rightarrow> 'a list \<Rightarrow> 'a list" where
  "Take n xs = take (nat n) xs"

text \<open>
  \<open>GroupBy\<close>: the groups stand in the order in which their keys first occur, and the
  elements of a group in their input order.
\<close>

fun add_to_group :: "'k \<Rightarrow> 'a \<Rightarrow> ('k \<times> 'a list) list \<Rightarrow> ('k \<times> 'a list) list" where
  "add_to_group k x [] = [(k, [x])]"
| "add_to_group k x ((k', g) # gs) =
     (if k' = k then (k', g @ [x]) # gs else (k', g) # add_to_group k x gs)"

definition GroupBy :: "('a \<Rightarrow> 'k) \<Rightarrow> 'a list \<Rightarrow> ('k \<times> 'a list) list" where
  "GroupBy f xs = foldl (\<lambda>gs x. add_to_group (f x) x gs) [] xs"

text \<open>A \<open>Select\<close> whose selector may throw: the first failure ends the enumeration.\<close>

fun select_checked :: "('a \<Rightarrow> error + 'b) \<Rightarrow> 'a list \<Rightarrow> error + 'b list" where
  "select_checked f [] = Inr []"
| "select_checked f (x # xs) =
     (case f x of
        Inl e \<Rightarrow> Inl e
      | Inr y \<Rightarrow> (case select_checked f xs of Inl e \<Rightarrow> Inl e | Inr ys \<Rightarrow> Inr (y # ys)))"

subsection \<open>The repository\<close>

definition or_empty :: "string option \<Rightarrow> string" where
  "or_empty s = (case s of None \<Rightarrow> [] | Some t \<Rightarrow> t)"

definition part_matches :: "string \<Rightarrow> InventoryItem \<Rightarrow> bool" where
  "part_matches normalized i =
     (case PartNumber i of
        None \<Rightarrow> False
      | Some pn \<Rightarrow> equals_ignore_case (to_upper (trim pn)) normalized)"

definition FindByPartNumberAsync :: "InventoryItem list \<Rightarrow> string option \<Rightarrow> InventoryItem list" where
  "FindByPartNumberAsync items partNumber =
     (let normalized = to_upper (trim (or_empty partNumber))
      in filter (part_matches normalized) items)"

subsection \<open>Search\<close>

datatype sort_key = KString string | KInt int | KDateTime int

text \<open>
  The keys of one sort all come from one selector, so two keys of different kinds are never
  compared. Strings compare by the current culture, which is the parameter \<open>str_le\<close>.
\<close>

fun key_le :: "(string \<Rightarrow> string \<Rightarrow> bool) \<Rightarrow> sort_key \<Rightarrow> sort_key \<Rightarrow> bool" where
  "key_le str_le (KString a) (KString b) = str_le a b"
| "key_le str_le (KInt a) (KInt b) = (a \<le> b)"
| "key_le str_le (KDateTime a) (KDateTime b) = (a \<le> b)"
| "key_le str_le a b = False"

definition keySelector :: "string \<Rightarrow> InventoryItem \<Rightarrow> sort_key" where
  "keySelector sortField i =
     (if sortField = ''description'' then KString (or_empty (Description i))
      else if sortField = ''branch'' then KString (or_empty (Branch i))
      else if sortField = ''availableqty'' then KInt (AvailableQty i)
      else if sortField = ''uom'' then KString (or_empty (Uom i))
      else if sortField = ''leadtimedays''
        then KInt (case LeadTimeDays i of None \<Rightarrow> int_MaxValue | Some d \<Rightarrow> d)
      else if sortField = ''lastpurchasedate''
        then KDateTime (case LastPurchaseDate i of None \<Rightarrow> 0 | Some d \<Rightarrow> d)
      else KString (or_empty (PartNumber i)))"

definition criteria_filter :: "InventorySearchRequest \<Rightarrow> InventoryItem \<Rightarrow> bool" where
  "criteria_filter request i =
     (let criteria = trim (or_empty (Criteria request));
          by = trim (case By request of None \<Rightarrow> ''PartNumber'' | Some b \<Rightarrow> b)
      in if \<not> is_blank criteria then
           (let critUpper = to_upper criteria
            in if by = ''Description'' then contains (to_upper (or_empty (Description i))) critUpper
               else if by = ''SupplierSKU'' then contains (to_upper (or_empty (SupplierSku i))) critUpper
               else contains (to_upper (or_empty (PartNumber i))) critUpper)
         else True)"

definition branch_filter :: "InventorySearchRequest \<Rightarrow> InventoryItem \<Rightarrow> bool" where
  "branch_filter request i =
     (if \<not> IsNullOrWhiteSpace (Branches request) then
        (let branchSet = map to_upper
               (filter (\<lambda>b. b \<noteq> []) (map trim (split_on CHR '','' (or_empty (Branches request)))))
         in to_upper (or_empty (Branch i)) \<in> set branchSet)
      else True)"

definition available_filter :: "InventorySearchRequest \<Rightarrow> InventoryItem \<Rightarrow> bool" where
  "available_filter request i = (if OnlyAvailable request then AvailableQty i > 0 else True)"

definition filtered :: "InventorySearchRequest \<Rightarrow> InventoryItem list \<Rightarrow> InventoryItem list" where
  "filtered request all =
     filter (available_filter request) (filter (branch_filter request) (filter (criteria_filter request) all))"

definition sort_parts :: "InventorySearchRequest \<Rightarrow> string \<times> string" where
  "sort_parts request =
     (if \<not> IsNullOrWhiteSpace (Sort request) \<and> CHR '':'' \<in> set (or_empty (Sort request)) then
        (let parts = map trim (split_on CHR '':'' (or_empty (Sort request)))
         in (to_lower (parts ! 0), if length parts > 1 then to_lower (parts ! 1) else ''asc''))
      else (''partnumber'', ''asc''))"

definition sorted_query ::
  "(string \<Rightarrow> string \<Rightarrow> bool) \<Rightarrow> InventorySearchRequest \<Rightarrow> InventoryItem list \<Rightarrow> InventoryItem list" where
  "sorted_query str_le request all =
     (let (sortField, sortDir) = sort_parts request
      in if sortDir = ''desc''
         then OrderByDescending (key_le str_le) (keySelector sortField) (filtered request all)
         else OrderBy (key_le str_le) (keySelector sortField) (filtered request all))"

definition SearchInventoryAsync ::
  "(string \<Rightarrow> string \<Rightarrow> bool) \<Rightarrow> InventoryItem list \<Rightarrow> InventorySearchRequest option \<Rightarrow> error + SearchResult" where
  "SearchInventoryAsync str_le all request =
     (case request of
        None \<Rightarrow> Inl ArgumentNullException
      | Some r \<Rightarrow>
          (let query = sorted_query str_le r all;
               tot = int (length query);
               size = (if Size r \<le> 0 then 20 else Size r);
               page = (if Page r < 0 then 0 else Page r);
               items = Take size (Skip (wrap32 (page * size)) query)
           in Inr \<lparr>Total = tot, Items = items\<rparr>))"

subsection \<open>Peak availability\<close>

definition branch_key :: "InventoryItem \<Rightarrow> string" where
  "branch_key i = to_upper (or_empty (Branch i))"

definition branch_sum :: "string \<times> InventoryItem list \<Rightarrow> error + BranchAvailability" where
  "branch_sum g =
     (case Sum (map AvailableQty (snd g)) of
        Inl e \<Rightarrow> Inl e
      | Inr q \<Rightarrow> Inr \<lparr>ba_Branch = fst g, Qty = q\<rparr>)"

definition GetPeakAvailabilityAsync :: "InventoryItem list \<Rightarrow> string option \<Rightarrow> error + AvailabilityResult" where
  "GetPeakAvailabilityAsync items partNumber =
     (if IsNullOrWhiteSpace partNumber then Inl ArgumentException
      else
        (let matches = FindByPartNumberAsync items partNumber
         in if matches = [] then
              Inr \<lparr>ar_PartNumber = Some (trim (or_empty partNumber)), TotalAvailable = 0, ar_Branches = []\<rparr>
            else
              (case select_checked branch_sum (GroupBy branch_key matches) of
                 Inl e \<Rightarrow> Inl e
               | Inr sums \<Rightarrow>
                   (let grouped = OrderByDescending (\<le>) Qty sums
                    in case Sum (map Qty grouped) of
                         Inl e \<Rightarrow> Inl e
                       | Inr tot \<Rightarrow>
                           Inr \<lparr>ar_PartNumber = PartNumber (hd matches),
                                TotalAvailable = tot,
                                ar_Branches = grouped\<rparr>))))"

subsection \<open>The controller\<close>

text \<open>
  The controller answers every request with an envelope: \<open>Ok\<close> (status 200) around a
  success, \<open>BadRequest\<close> (400) or status 500 around a failure, whose message is modelled by
  the error it reports.
\<close>

datatype 'a ResponseEnvelope = Success 'a | Failure "error option"

datatype 'a ActionResult = Ok "'a ResponseEnvelope" | BadRequest "'a ResponseEnvelope"
  | StatusCode500 "'a ResponseEnvelope"

definition Search ::
  "(string \<Rightarrow> string \<Rightarrow> bool) \<Rightarrow> InventoryItem list \<Rightarrow> string option \<Rightarrow> string option \<Rightarrow>
   string option \<Rightarrow> bool \<Rightarrow> int \<Rightarrow> int \<Rightarrow> string option \<Rightarrow> bool \<Rightarrow> SearchResult ActionResult" where
  "Search str_le all criteria by branches onlyAvailable page sz srt fail =
     (if fail then BadRequest (Failure None)
      else
        (let request = \<lparr>Criteria = Some (or_empty criteria),
                         By = Some (if IsNullOrWhiteSpace by then ''PartNumber'' else or_empty by),
                         Branches = Some (or_empty branches),
                         OnlyAvailable = onlyAvailable,
                         Page = page,
                         Size = sz,
                         Sort = Some (or_empty srt)\<rparr>
         in case SearchInventoryAsync str_le all (Some request) of
              Inr result \<Rightarrow> Ok (Success result)
            | Inl ex \<Rightarrow> StatusCode500 (Failure (Some ex))))"

definition GetPeakAvailability :: "InventoryItem list \<Rightarrow> string option \<Rightarrow> AvailabilityResult ActionResult" where
  "GetPeakAvailability items partNumber =
     (if IsNullOrWhiteSpace partNumber then BadRequest (Failure None)
      else case GetPeakAvailabilityAsync items partNumber of
             Inr result \<Rightarrow> Ok (Success result)
           | Inl ex \<Rightarrow> StatusCode500 (Failure (Some ex)))"

subsection \<open>What the results are compared with\<close>

text \<open>
  These are not code of the service: they name what its results are measured against. The
  page size and page index in force (\<open>size\<close> and \<open>page\<close> of \<open>SearchInventoryAsync\<close>), the
  distinct elements of a list in the order of their first occurrence, the per-branch totals
  of a list of matches in the order in which the branches first occur, and the order the
  specification asks of a branch list: quantity descending, equal quantities by branch code
  ascending.
\<close>

definition eff_size :: "InventorySearchRequest \<Rightarrow> int" where
  "eff_size r = (if Size r \<le> 0 then 20 else Size r)"

definition eff_page :: "InventorySearchRequest \<Rightarrow> int" where
  "eff_page r = (if Page r < 0 then 0 else Page r)"

definition first_seen :: "'a list \<Rightarrow> 'a list" where
  "first_seen xs = rev (remdups (rev xs))"

definition branch_totals :: "InventoryItem list \<Rightarrow> BranchAvailability list" where
  "branch_totals matches =
     map (\<lambda>k. \<lparr>ba_Branch = k, Qty = sum_list (map AvailableQty (filter (\<lambda>i. branch_key i = k) matches))\<rparr>)
       (first_seen (map branch_key matches))"

definition claimed_branch_order :: "BranchAvailability list \<Rightarrow> bool" where
  "claimed_branch_order bs =
     sorted_wrt (\<lambda>a b. Qty b < Qty a \<or> (Qty a = Qty b \<and> ba_Branch a \<le> ba_Branch b)) bs"

section \<open>The client cache (InventorySearchApiService)\<close>

subsection \<open>Queries and their cache key\<close>

text \<open>
  Modelled from the spec: the type declarations of \<open>models/inventory-search.models.ts\<close>
  (\<open>SearchBy\<close>, \<open>InventoryItemSortableFields\<close>, \<open>InventorySearchQuery\<close>, \<open>ApiEnvelope\<close>,
  \<open>PagedInventoryResponse\<close>) are not among the sources. The values of \<open>SearchBy\<close> are the
  ones the specification lists and the page component offers (\<open>byOptions\<close>), the sortable
  fields the ones the results table marks sortable, and the fields of a query the ones
  \<open>buildQuery\<close> writes and \<open>cacheKey\<close> reads. \<open>branches\<close> and \<open>sort\<close> may be absent; a sort
  whose field is the empty string (\<open>None\<close> here) counts as no sort. Numbers are integers.
\<close>

datatype SearchBy = By_PartNumber | By_Description | By_SupplierSKU

datatype SortField = F_partNumber | F_description | F_branch | F_availableQty | F_uom
  | F_leadTimeDays | F_lastPurchaseDate

datatype SortDir = Asc | Desc

record SortSpec =
  field :: "SortField option"
  direction :: SortDir

record InventorySearchQuery =
  q_criteria :: string
  q_by :: SearchBy
  q_branches :: "string list option"
  q_onlyAvailable :: bool
  q_page :: int
  q_size :: int
  q_sort :: "SortSpec option"

fun by_string :: "SearchBy \<Rightarrow> string" where
  "by_string By_PartNumber = ''PartNumber''"
| "by_string By_Description = ''Description''"
| "by_string By_SupplierSKU = ''SupplierSKU''"

fun field_string :: "SortField \<Rightarrow> string" where
  "field_string F_partNumber = ''partNumber''"
| "field_string F_description = ''description''"
| "field_string F_branch = ''branch''"
| "field_string F_availableQty = ''availableQty''"
| "field_string F_uom = ''uom''"
| "field_string F_leadTimeDays = ''leadTimeDays''"
| "field_string F_lastPurchaseDate = ''lastPurchaseDate''"

fun direction_string :: "SortDir \<Rightarrow> string" where
  "direction_string Asc = ''asc''"
| "direction_string Desc = ''desc''"

text \<open>A number in a template literal: its decimal digits, after a minus sign if negative.\<close>

definition digit_char :: "nat \<Rightarrow> char" where
  "digit_char d = char_of (48 + d)"

fun digits :: "nat \<Rightarrow> string" where
  "digits n = (if n < 10 then [digit_char n] else digits (n div 10) @ [digit_char (n mod 10)])"

declare digits.simps [simp del]

definition show_int :: "int \<Rightarrow> string" where
  "show_int i = (if i < 0 then CHR ''-'' # digits (nat (- i)) else digits (nat i))"

text \<open>\<open>Array.prototype.join\<close>.\<close>

fun join :: "string \<Rightarrow> string list \<Rightarrow> string" where
  "join sep [] = []"
| "join sep [x] = x"
| "join sep (x # y # ys) = x @ sep @ join sep (y # ys)"

text \<open>
  \<open>sort()\<close> with no comparator orders strings by their code units, which is the
  lexicographic order of \<^typ>\<open>string\<close>.
\<close>

definition sort_string :: "SortSpec option \<Rightarrow> string" where
  "sort_string s =
     (case s of
        None \<Rightarrow> ''nosort''
      | Some sp \<Rightarrow>
          (case field sp of
             None \<Rightarrow> ''nosort''
           | Some f \<Rightarrow> field_string f @ '':'' @ direction_string (direction sp)))"

definition branches_string :: "string list option \<Rightarrow> string" where
  "branches_string bs =
     join ''|'' (sort (map (\<lambda>b. to_upper (trim b)) (case bs of None \<Rightarrow> [] | Some l \<Rightarrow> l)))"

definition cacheKey :: "InventorySearchQuery \<Rightarrow> string" where
  "cacheKey q =
     (let criteria = to_lower (trim (q_criteria q));
          by = by_string (q_by q);
          branches = branches_string (q_branches q);
          available = (if q_onlyAvailable q then ''1'' else ''0'');
          page = ''p'' @ show_int (q_page q);
          sz = ''s'' @ show_int (q_size q);
          srt = sort_string (q_sort q)
      in join ''::'' [criteria, by, branches, available, page, sz, srt])"

definition peakKey :: "string \<Rightarrow> string" where
  "peakKey partNumber = ''peak:'' @ to_upper (trim partNumber)"

subsection \<open>The two caches\<close>

text \<open>
  A cache entry holds its key, its expiry time in milliseconds and the shared observable of
  the request, which is modelled by the number of the HTTP request it wraps. One call reads
  the clock several times in a row; these readings are one instant \<open>now\<close>.
\<close>

record CacheEntry =
  key :: string
  expiry :: int
  obs :: nat

definition CACHE_TTL_MS :: int where
  "CACHE_TTL_MS = 60000"

definition CACHE_MAX_ENTRIES :: nat where
  "CACHE_MAX_ENTRIES = 5"

text \<open>\<open>while (next.length > CACHE_MAX_ENTRIES) next.shift()\<close>\<close>

function shift_excess :: "CacheEntry list \<Rightarrow> CacheEntry list" where
  "shift_excess next = (if length next > CACHE_MAX_ENTRIES then shift_excess (tl next) else next)"
  by pat_completeness auto
termination
  by (relation "measure length") (auto simp: CACHE_MAX_ENTRIES_def)

declare shift_excess.simps [simp del]

definition remember :: "int \<Rightarrow> CacheEntry list \<Rightarrow> string \<Rightarrow> nat \<Rightarrow> CacheEntry list" where
  "remember now cache k ob =
     (let exp = now + CACHE_TTL_MS;
          next0 = filter (\<lambda>c. expiry c > now) cache;
          next1 = (if length next0 \<ge> CACHE_MAX_ENTRIES
                   then drop (length next0 - CACHE_MAX_ENTRIES + 1) (OrderBy (\<le>) expiry next0)
                   else next0);
          next2 = next1 @ [\<lparr>key = k, expiry = exp, obs = ob\<rparr>]
      in shift_excess next2)"

text \<open>
  The envelope of a response, and what the observable of an HTTP request delivers: a response
  as a value, or an error (the HTTP client reports every status outside 2xx and every
  transport failure on the error channel). The \<open>tap\<close> of the service has a handler for
  values only.
\<close>

record 'a ApiEnvelope =
  isFailed :: bool
  message :: "string option"
  data :: "'a option"

datatype 'a notification = Next "'a ApiEnvelope" | HttpError

datatype request = SearchRequest "(string \<times> string) list" | PeakRequest "(string \<times> string) list"

record ApiService =
  cache :: "CacheEntry list"
  peakCache :: "CacheEntry list"
  issued :: "request list"

definition init_service :: ApiService where
  "init_service = \<lparr>cache = [], peakCache = [], issued = []\<rparr>"

definition search_params :: "InventorySearchQuery \<Rightarrow> (string \<times> string) list" where
  "search_params query =
     [(''criteria'', trim (q_criteria query)),
      (''by'', by_string (q_by query)),
      (''onlyAvailable'', if q_onlyAvailable query then ''true'' else ''false''),
      (''page'', show_int (q_page query)),
      (''size'', show_int (q_size query))]
     @ (case q_branches query of
          None \<Rightarrow> []
        | Some bs \<Rightarrow> if bs = [] then [] else [(''branches'', join '','' bs)])
     @ (case q_sort query of
          None \<Rightarrow> []
        | Some sp \<Rightarrow>
            (case field sp of
               None \<Rightarrow> []
             | Some f \<Rightarrow> [(''sort'', field_string f @ '':'' @ direction_string (direction sp))]))"

text \<open>
  \<open>search\<close>: the sweep at time \<open>now\<close>, the lookup, and on a miss a new HTTP request that is
  remembered at time \<open>now_r\<close>. The result is the number of the request behind the returned
  observable and the service afterwards.
\<close>

definition search :: "InventorySearchQuery \<Rightarrow> int \<Rightarrow> int \<Rightarrow> ApiService \<Rightarrow> nat \<times> ApiService" where
  "search query now now_r s =
     (let k = cacheKey query;
          swept = filter (\<lambda>e. expiry e > now) (cache s)
      in case find (\<lambda>e. key e = k) swept of
           Some hit \<Rightarrow> (obs hit, s\<lparr>cache := swept\<rparr>)
         | None \<Rightarrow>
             (let ob = length (issued s)
              in (ob, s\<lparr>cache := remember now_r swept k ob,
                        issued := issued s @ [SearchRequest (search_params query)]\<rparr>)))"

definition getPeakAvailability :: "string \<Rightarrow> int \<Rightarrow> int \<Rightarrow> ApiService \<Rightarrow> nat \<times> ApiService" where
  "getPeakAvailability partNumber now now_r s =
     (let k = peakKey partNumber;
          swept = filter (\<lambda>e. expiry e > now) (peakCache s)
      in case find (\<lambda>e. key e = k) swept of
           Some hit \<Rightarrow> (obs hit, s\<lparr>peakCache := swept\<rparr>)
         | None \<Rightarrow>
             (let ob = length (issued s)
              in (ob, s\<lparr>peakCache := remember now_r swept k ob,
                        issued := issued s @ [PeakRequest [(''partNumber'', trim partNumber)]]\<rparr>)))"

text \<open>The \<open>tap\<close> of a request with key \<open>k\<close>, run on what the request delivers.\<close>

definition search_tap :: "string \<Rightarrow> 'a notification \<Rightarrow> ApiService \<Rightarrow> ApiService" where
  "search_tap k n s =
     (case n of
        Next res \<Rightarrow> if isFailed res then s\<lparr>cache := filter (\<lambda>e. key e \<noteq> k) (cache s)\<rparr> else s
      | HttpError \<Rightarrow> s)"

definition peak_tap :: "string \<Rightarrow> 'a notification \<Rightarrow> ApiService \<Rightarrow> ApiService" where
  "peak_tap k n s =
     (case n of
        Next res \<Rightarrow> if isFailed res then s\<lparr>peakCache := filter (\<lambda>e. key e \<noteq> k) (peakCache s)\<rparr> else s
      | HttpError \<Rightarrow> s)"

text \<open>Everything that happens to the service, in the order in which it happens.\<close>

datatype 'a event =
    SearchCall InventorySearchQuery int int
  | PeakCall string int int
  | SearchDelivers string "'a notification"
  | PeakDelivers string "'a notification"

fun step :: "ApiService \<Rightarrow> 'a event \<Rightarrow> ApiService" where
  "step s (SearchCall query now now_r) = snd (search query now now_r s)"
| "step s (PeakCall partNumber now now_r) = snd (getPeakAvailability partNumber now now_r s)"
| "step s (SearchDelivers k n) = search_tap k n s"
| "step s (PeakDelivers k n) = peak_tap k n s"

definition run :: "'a event list \<Rightarrow> ApiService \<Rightarrow> ApiService" where
  "run evs s = foldl step s evs"

subsection \<open>What the keys and caches are compared with\<close>





text \<open>The capacity of both caches, as a property of the service.\<close>

definition bounded :: "ApiService \<Rightarrow> bool" where
  "bounded s = (length (cache s) \<le> CACHE_MAX_ENTRIES \<and> length (peakCache s) \<le> CACHE_MAX_ENTRIES)"

section \<open>The search orchestrator (IndexPageComponent)\<close>

text \<open>
  The component is a pipeline of observables:
  \<open>merge(searchTrigger$, sortState$, page$)\<close>, then \<open>debounceTime\<close>, \<open>map(buildQuery)\<close>,
  \<open>filter\<close>, \<open>tap\<close>, \<open>switchMap\<close> to the request with its own \<open>tap\<close> and \<open>finalize\<close>, and
  two subscribers that publish items and total. It is modelled as a state machine over the
  events that reach it: the user's actions, the debounce timer that fires, and what a request
  delivers. The state holds the form, the subjects' values, the published values and what the
  operators remember: whether \<open>debounceTime\<close> holds a trigger back (\<open>pending\<close>), the
  subscription of every request issued so far (\<open>subs\<close>, by request number) and the inner
  subscriber of \<open>switchMap\<close> (\<open>innerSubscriber\<close>). The time between two events is not
  modelled, only their order.
\<close>

record PagedInventoryResponse =
  pr_total :: int
  pr_items :: "InventoryItem list"

datatype subscription = Active | Unsubscribed | Completed | Errored

record IndexPage =
  form_criteria :: string
  form_by :: SearchBy
  form_branches :: "string list"
  form_onlyAvailable :: bool
  loading_s :: bool
  items_s :: "InventoryItem list"
  total_s :: int
  errorMessage :: "string option"
  currentPage :: int
  sortState :: "SortField option \<times> SortDir"
  page_s :: int
  debounce :: int
  pending :: bool
  subs :: "subscription list"
  innerSubscriber :: "nat option"
  sent :: "InventorySearchQuery list"
  alive :: bool

definition pageSize :: int where
  "pageSize = 20"

text \<open>
  The state after the constructor and \<open>ngOnInit\<close>: the two behaviour subjects have emitted
  their first values into the pipeline, where the form is still empty.
\<close>

definition init_page :: "int \<Rightarrow> IndexPage" where
  "init_page debounceMs =
     \<lparr>form_criteria = [], form_by = By_PartNumber, form_branches = [], form_onlyAvailable = False,
      loading_s = False, items_s = [], total_s = 0, errorMessage = None, currentPage = 0,
      sortState = (None, Asc), page_s = 0, debounce = debounceMs, pending = (0 < debounceMs),
      subs = [], innerSubscriber = None, sent = [], alive = True\<rparr>"

text \<open>The form is invalid when a required control is empty; only the criteria can be.\<close>

definition form_invalid :: "IndexPage \<Rightarrow> bool" where
  "form_invalid s = (form_criteria s = [])"

definition buildQuery :: "IndexPage \<Rightarrow> InventorySearchQuery option" where
  "buildQuery s =
     (if form_criteria s = [] \<or> form_invalid s then None
      else Some \<lparr>q_criteria = trim (form_criteria s),
                 q_by = form_by s,
                 q_branches = Some (map to_upper (form_branches s)),
                 q_onlyAvailable = form_onlyAvailable s,
                 q_page = page_s s,
                 q_size = pageSize,
                 q_sort = (case fst (sortState s) of
                             None \<Rightarrow> None
                           | Some f \<Rightarrow> Some \<lparr>field = Some f, direction = snd (sortState s)\<rparr>)\<rparr>)"

text \<open>
  What passes \<open>debounceTime\<close> runs through the rest of the pipeline at once: the query is
  built, dropped if there is none; the outer \<open>tap\<close> clears the error and raises loading;
  \<open>switchMap\<close> unsubscribes its inner subscriber, whose \<open>finalize\<close> lowers loading, and
  subscribes to the request of the new query.
\<close>

definition fire :: "IndexPage \<Rightarrow> IndexPage" where
  "fire s =
     (case buildQuery s of
        None \<Rightarrow> s
      | Some q \<Rightarrow>
          (let s1 = s\<lparr>errorMessage := None, loading_s := True\<rparr>;
               s2 = (case innerSubscriber s1 of
                       None \<Rightarrow> s1
                     | Some m \<Rightarrow> s1\<lparr>subs := (subs s1)[m := Unsubscribed], loading_s := False\<rparr>)
           in s2\<lparr>subs := subs s2 @ [Active],
                 innerSubscriber := Some (length (subs s2)),
                 sent := sent s2 @ [q]\<rparr>))"

text \<open>
  A value of one of the three merged subjects: held back by \<open>debounceTime\<close>, whose timer
  starts again, or passed on at once when the debounce time is not positive.
\<close>

definition trigger :: "IndexPage \<Rightarrow> IndexPage" where
  "trigger s =
     (if \<not> alive s then s
      else if 0 < debounce s then s\<lparr>pending := True\<rparr>
      else fire s)"

definition onSearch :: "IndexPage \<Rightarrow> IndexPage" where
  "onSearch s =
     (if form_invalid s then s\<lparr>errorMessage := Some ''Enter search criteria to begin.''\<rparr>
      else
        (let s1 = s\<lparr>errorMessage := None, loading_s := True, currentPage := 0\<rparr>;
             s2 = (if page_s s1 \<noteq> 0 then trigger (s1\<lparr>page_s := 0\<rparr>) else s1)
         in trigger s2))"

definition onSort :: "SortField \<Rightarrow> IndexPage \<Rightarrow> IndexPage" where
  "onSort f s =
     (let current = sortState s;
          dir = (if fst current = Some f \<and> snd current = Asc then Desc else Asc);
          s1 = trigger (s\<lparr>sortState := (Some f, dir)\<rparr>);
          s2 = s1\<lparr>currentPage := 0\<rparr>
      in trigger (s2\<lparr>page_s := 0\<rparr>))"

definition onPageChange :: "int \<Rightarrow> IndexPage \<Rightarrow> IndexPage" where
  "onPageChange pageIndex s =
     (let s1 = s\<lparr>currentPage := max 0 pageIndex\<rparr>
      in trigger (s1\<lparr>page_s := currentPage s1\<rparr>))"

text \<open>
  What request \<open>n\<close> delivers reaches the component only while its subscription is active.
  A response runs through the inner \<open>tap\<close>, which sets the error message, and through the
  two subscribers, which publish items and total; then the request completes and
  \<open>finalize\<close> lowers loading. An error runs \<open>finalize\<close> and ends the pipeline, which has no
  error handler.
\<close>

definition deliver :: "nat \<Rightarrow> PagedInventoryResponse notification \<Rightarrow> IndexPage \<Rightarrow> IndexPage" where
  "deliver n out s =
     (if n < length (subs s) \<and> subs s ! n = Active then
        (case out of
           Next res \<Rightarrow>
             s\<lparr>errorMessage :=
                  (if isFailed res
                   then Some (case message res of
                                None \<Rightarrow> ''Search failed''
                              | Some m \<Rightarrow> if m = [] then ''Search failed'' else m)
                   else None),
               items_s := (if isFailed res \<or> data res = None then [] else pr_items (the (data res))),
               total_s := (if isFailed res \<or> data res = None then 0 else pr_total (the (data res))),
               loading_s := False,
               subs := (subs s)[n := Completed],
               innerSubscriber := None\<rparr>
         | HttpError \<Rightarrow>
             s\<lparr>loading_s := False, subs := (subs s)[n := Errored], pending := False, alive := False\<rparr>)
      else s)"

datatype page_event =
    SetCriteria string
  | SetBy SearchBy
  | SetBranches "string list"
  | SetOnlyAvailable bool
  | OnSearch
  | OnSort SortField
  | OnPageChange int
  | DebounceElapsed
  | Delivers nat "PagedInventoryResponse notification"

fun page_step :: "IndexPage \<Rightarrow> page_event \<Rightarrow> IndexPage" where
  "page_step s (SetCriteria c) = s\<lparr>form_criteria := c\<rparr>"
| "page_step s (SetBy b) = s\<lparr>form_by := b\<rparr>"
| "page_step s (SetBranches bs) = s\<lparr>form_branches := bs\<rparr>"
| "page_step s (SetOnlyAvailable a) = s\<lparr>form_onlyAvailable := a\<rparr>"
| "page_step s OnSearch = onSearch s"
| "page_step s (OnSort f) = onSort f s"
| "page_step s (OnPageChange i) = onPageChange i s"
| "page_step s DebounceElapsed = (if pending s then fire (s\<lparr>pending := False\<rparr>) else s)"
| "page_step s (Delivers n out) = deliver n out s"

definition page_run :: "page_event list \<Rightarrow> IndexPage \<Rightarrow> IndexPage" where
  "page_run evs s = foldl page_step s evs"

text \<open>
  What the operators guarantee over every run: only the subscription of the inner subscriber
  of \<open>switchMap\<close> can be active, and the inner subscriber is the request issued last.
\<close>

definition switch_inv :: "IndexPage \<Rightarrow> bool" where
  "switch_inv s =
     (list_all (\<lambda>n. subs s ! n = Active \<longrightarrow> innerSubscriber s = Some n) [0..<length (subs s)]
      \<and> (case innerSubscriber s of None \<Rightarrow> True | Some m \<Rightarrow> Suc m = length (subs s)))"

section \<open>Sample data\<close>

definition item1 :: InventoryItem where
  "item1 = \<lparr>PartNumber = Some ''PN-1000'', SupplierSku = Some ''SUP-5000'',
     Description = Some ''Mock part 0 - standard'', Branch = Some ''SEA'', AvailableQty = 5,
     Uom = Some ''EA'', LeadTimeDays = None, LastPurchaseDate = None\<rparr>"

definition item_pdx :: InventoryItem where
  "item_pdx = \<lparr>PartNumber = Some ''pn-1000 '', SupplierSku = Some ''SUP-5000'',
     Description = Some ''Mock part 0 - premium'', Branch = Some ''pdx'', AvailableQty = 5,
     Uom = Some ''BX'', LeadTimeDays = Some 3, LastPurchaseDate = None\<rparr>"

definition item_lax :: InventoryItem where
  "item_lax = \<lparr>PartNumber = Some ''PN-1000'', SupplierSku = Some ''SUP-5000'',
     Description = Some ''Mock part 0 - standard'', Branch = Some ''LAX'', AvailableQty = 7,
     Uom = Some ''CS'', LeadTimeDays = None, LastPurchaseDate = Some 100\<rparr>"

definition item_big :: "string \<Rightarrow> InventoryItem" where
  "item_big b = \<lparr>PartNumber = Some ''PN-1000'', SupplierSku = Some ''SUP-5000'',
     Description = Some ''Mock part 0 - standard'', Branch = Some b, AvailableQty = 2147483647,
     Uom = Some ''EA'', LeadTimeDays = None, LastPurchaseDate = None\<rparr>"



definition request2 :: InventorySearchRequest where
  "request2 = \<lparr>Criteria = Some [], By = Some ''PartNumber'', Branches = Some [],
     OnlyAvailable = False, Page = 1073741824, Size = 4, Sort = Some []\<rparr>"

definition query1 :: InventorySearchQuery where
  "query1 = \<lparr>q_criteria = '' Bolt '', q_by = By_PartNumber, q_branches = Some [''sea'', ''PDX''],
     q_onlyAvailable = True, q_page = 0, q_size = 20,
     q_sort = Some \<lparr>field = Some F_branch, direction = Desc\<rparr>\<rparr>"

definition entry :: "string \<Rightarrow> int \<Rightarrow> nat \<Rightarrow> CacheEntry" where
  "entry k e ob = \<lparr>key = k, expiry = e, obs = ob\<rparr>"

definition cache5 :: "CacheEntry list" where
  "cache5 = [entry ''k1'' 50 0, entry ''k2'' 10 1, entry ''k3'' 30 2, entry ''k4'' 40 3, entry ''k5'' 20 4]"

definition six_searches :: "unit event list" where
  "six_searches = map (\<lambda>n. SearchCall (query1\<lparr>q_page := int n\<rparr>) (int n) (int n)) [0..<6]"





definition ok_envelope :: "PagedInventoryResponse ApiEnvelope" where
  "ok_envelope = \<lparr>isFailed = False, message = None, data = Some \<lparr>pr_total = 1, pr_items = [item1]\<rparr>\<rparr>"

definition failed_page :: "PagedInventoryResponse ApiEnvelope" where
  "failed_page = \<lparr>isFailed = True, message = Some ''Forced failure (fail=true)'', data = None\<rparr>"

definition first_search :: "page_event list" where
  "first_search = [SetCriteria ''bolt'', OnSearch, DebounceElapsed]"

section \<open>Properties of the query engine\<close>

subsection \<open>The errors of a peak-availability lookup\<close>

lemma checked_sum_from_error: "checked_sum_from acc xs = Inl e \<Longrightarrow> e = OverflowException"
  by (induction xs arbitrary: acc) (auto split: if_splits)

lemma Sum_error: "Sum xs = Inl e \<Longrightarrow> e = OverflowException"
  unfolding Sum_def by (rule checked_sum_from_error)

lemma branch_sum_error: "branch_sum g = Inl e \<Longrightarrow> e = OverflowException"
  by (auto simp: branch_sum_def split: sum.splits dest: Sum_error)

lemma select_checked_error:
  "select_checked branch_sum gs = Inl e \<Longrightarrow> e = OverflowException"
  by (induction gs) (auto split: sum.splits dest: branch_sum_error)

lemma peak_error_cases:
  "\<not> IsNullOrWhiteSpace pn \<Longrightarrow> GetPeakAvailabilityAsync items pn = Inl e \<Longrightarrow> e = OverflowException"
  by (auto simp: GetPeakAvailabilityAsync_def Let_def split: if_splits sum.splits
      dest: select_checked_error Sum_error)





subsection \<open>Ordering operators\<close>

lemma length_insert_by: "length (insert_by le f x ys) = Suc (length ys)"
  by (induction ys) auto

lemma length_OrderBy: "length (OrderBy le f xs) = length xs"
  by (induction xs) (auto simp: OrderBy_def length_insert_by)

lemma length_OrderByDescending: "length (OrderByDescending le f xs) = length xs"
  by (induction xs) (auto simp: OrderByDescending_def length_insert_by)

lemma mset_insert_by: "mset (insert_by le f x ys) = add_mset x (mset ys)"
  by (induction ys) auto

lemma mset_OrderByDescending: "mset (OrderByDescending le f xs) = mset xs"
  by (induction xs) (auto simp: OrderByDescending_def mset_insert_by)

lemma sum_list_OrderByDescending:
  "sum_list (map g (OrderByDescending le f xs)) = sum_list (map (g :: 'a \<Rightarrow> int) xs)"
proof -
  have "sum_list (map g (OrderByDescending le f xs)) =
        sum_mset (image_mset g (mset (OrderByDescending le f xs)))"
    by (metis mset_map sum_mset_sum_list)
  also have "\<dots> = sum_mset (image_mset g (mset xs))"
    by (simp add: mset_OrderByDescending)
  also have "\<dots> = sum_list (map g xs)"
    by (metis mset_map sum_mset_sum_list)
  finally show ?thesis .
qed

lemma set_insert_by: "set (insert_by le f x ys) = insert x (set ys)"
  by (induction ys) auto

lemma sorted_insert_desc:
  "sorted_wrt (\<lambda>a b. f b \<le> f a) ys \<Longrightarrow>
   sorted_wrt (\<lambda>a b. (f b :: int) \<le> f a) (insert_by (\<lambda>a b. b \<le> a) f x ys)"
  by (induction ys) (auto simp: set_insert_by)

lemma sorted_OrderByDescending:
  "sorted_wrt (\<lambda>a b. (f b :: int) \<le> f a) (OrderByDescending (\<le>) f xs)"
  by (induction xs) (auto simp: OrderByDescending_def sorted_insert_desc)

text \<open>Stability: the elements of one key keep their input order.\<close>

lemma filter_insert_desc:
  "filter (\<lambda>y. f y = q) (insert_by (\<lambda>a b. b \<le> a) f x ys) =
     (if f x = q then x # filter (\<lambda>y. f y = q) ys else filter (\<lambda>y. (f y :: int) = q) ys)"
  by (induction ys) auto

lemma stable_OrderByDescending:
  "filter (\<lambda>y. f y = q) (OrderByDescending (\<le>) f xs) = filter (\<lambda>y. (f y :: int) = q) xs"
  by (induction xs) (auto simp: OrderByDescending_def filter_insert_desc)

subsection \<open>Paging\<close>

lemma length_sorted_query: "length (sorted_query le r all) = length (filtered r all)"
  by (simp add: sorted_query_def length_OrderBy length_OrderByDescending split: prod.splits)

lemma wrap32_id: "in_int32 x \<Longrightarrow> wrap32 x = x"
  by (simp add: in_int32_def wrap32_def int_MinValue_def int_MaxValue_def)

text \<open>
  As long as the product of page index and page size stays within the 32-bit range, the search
  returns the number of records that pass the three filters as its total, whatever the page,
  and the slice of the sorted sequence that starts at \<open>page * size\<close> and has at most \<open>size\<close>
  elements; a page beyond the end is empty.
\<close>

lemma search_page_in_range:
  assumes "eff_page r * eff_size r \<le> int_MaxValue"
  shows "\<exists>res. SearchInventoryAsync le all (Some r) = Inr res
     \<and> Total res = int (length (filter (\<lambda>i. criteria_filter r i \<and> branch_filter r i \<and> available_filter r i) all))
     \<and> Items res = take (nat (eff_size r)) (drop (nat (eff_page r * eff_size r)) (sorted_query le r all))
     \<and> int (length (Items res)) = min (eff_size r) (max 0 (Total res - eff_page r * eff_size r))"
proof -
  have nn: "0 \<le> eff_page r * eff_size r"
    by (simp add: eff_page_def eff_size_def)
  with assms have w: "wrap32 (eff_page r * eff_size r) = eff_page r * eff_size r"
    by (intro wrap32_id) (simp add: in_int32_def int_MinValue_def)
  have sz: "0 < eff_size r" by (simp add: eff_size_def)
  have f: "filtered r all = filter (\<lambda>i. criteria_filter r i \<and> branch_filter r i \<and> available_filter r i) all"
    by (auto simp: filtered_def intro: filter_cong)
  have res: "SearchInventoryAsync le all (Some r) =
     Inr \<lparr>Total = int (length (sorted_query le r all)),
          Items = take (nat (eff_size r)) (drop (nat (eff_page r * eff_size r)) (sorted_query le r all))\<rparr>"
    using w by (simp add: SearchInventoryAsync_def Let_def Take_def Skip_def eff_size_def eff_page_def)
  show ?thesis
    unfolding res using nn sz by (auto simp: length_sorted_query f min_def max_def)
qed

text \<open>
  Claim C1. The total is the number of records that pass the filters and the page is the slice
  \<open>[page * size, page * size + size)\<close> of the sorted sequence, so that a page beyond the end
  is empty. The service multiplies page index and page size in unchecked 32-bit arithmetic:
  for page 1073741824 and size 4 the product wraps to 0, and the search over a single record
  returns that record on a page that lies far beyond the end, where the claim asks for
  \<open>min 4 (max 0 (1 - 4294967296)) = 0\<close> items.
\<close>

theorem search_page_overflow:
  "SearchInventoryAsync (\<le>) [item1] (Some request2) = Inr \<lparr>Total = 1, Items = [item1]\<rparr>
   \<and> eff_page request2 * eff_size request2 = 4294967296
   \<and> int (length [item1]) \<noteq> min (eff_size request2) (max 0 (1 - eff_page request2 * eff_size request2))"
proof -
  have "SearchInventoryAsync (\<le>) [item1] (Some request2) = Inr \<lparr>Total = 1, Items = [item1]\<rparr>"
    by code_simp
  then show ?thesis
    by (simp add: eff_page_def eff_size_def request2_def)
qed

subsection \<open>The search field\<close>









subsection \<open>Aggregation\<close>

lemma checked_sum_from_value: "checked_sum_from acc xs = Inr v \<Longrightarrow> v = acc + sum_list xs"
  by (induction xs arbitrary: acc) (force split: if_splits)+

lemma checked_sum_from_ok:
  "\<forall>x\<in>set xs. 0 \<le> x \<Longrightarrow> in_int32 acc \<Longrightarrow> acc + sum_list xs \<le> int_MaxValue \<Longrightarrow>
   checked_sum_from acc xs = Inr (acc + sum_list xs)"
proof (induction xs arbitrary: acc)
  case Nil
  then show ?case by simp
next
  case (Cons x xs)
  have "0 \<le> sum_list xs" using Cons.prems(1) by (simp add: sum_list_nonneg)
  with Cons.prems have "in_int32 (acc + x)"
    by (auto simp: in_int32_def)
  with Cons show ?case by (simp add: add.assoc)
qed

lemma checked_sum_from_overflow:
  "\<forall>x\<in>set xs. 0 \<le> x \<Longrightarrow> in_int32 acc \<Longrightarrow> int_MaxValue < acc + sum_list xs \<Longrightarrow>
   checked_sum_from acc xs = Inl OverflowException"
proof (induction xs arbitrary: acc)
  case Nil
  then show ?case by (simp add: in_int32_def)
next
  case (Cons x xs)
  then show ?case by (simp add: add.assoc)
qed

lemma in_int32_0: "in_int32 0"
  by (simp add: in_int32_def int_MinValue_def int_MaxValue_def)

lemma Sum_value: "Sum xs = Inr v \<Longrightarrow> v = sum_list xs"
  unfolding Sum_def by (drule checked_sum_from_value) simp

lemma Sum_ok: "\<forall>x\<in>set xs. 0 \<le> x \<Longrightarrow> sum_list xs \<le> int_MaxValue \<Longrightarrow> Sum xs = Inr (sum_list xs)"
  unfolding Sum_def using checked_sum_from_ok [of xs 0] by (simp add: in_int32_0)

lemma Sum_overflow:
  "\<forall>x\<in>set xs. 0 \<le> x \<Longrightarrow> int_MaxValue < sum_list xs \<Longrightarrow> Sum xs = Inl OverflowException"
  unfolding Sum_def using checked_sum_from_overflow [of xs 0] by (simp add: in_int32_0)

text \<open>The groups of \<open>GroupBy\<close>: one for each key, in the order of first occurrence.\<close>

lemma first_seen_snoc:
  "first_seen (xs @ [x]) = (if x \<in> set xs then first_seen xs else first_seen xs @ [x])"
  by (simp add: first_seen_def)

lemma set_first_seen: "set (first_seen xs) = set xs"
  by (simp add: first_seen_def)

lemma distinct_first_seen: "distinct (first_seen xs)"
  by (simp add: first_seen_def)

lemma GroupBy_snoc: "GroupBy f (xs @ [x]) = add_to_group (f x) x (GroupBy f xs)"
  by (simp add: GroupBy_def)

lemma add_to_group_keys:
  assumes "distinct ks" and "f x \<notin> set ks \<longrightarrow> f x \<notin> f ` set xs"
  shows "add_to_group (f x) x (map (\<lambda>k. (k, filter (\<lambda>y. f y = k) xs)) ks) =
         map (\<lambda>k. (k, filter (\<lambda>y. f y = k) (xs @ [x]))) (if f x \<in> set ks then ks else ks @ [f x])"
  using assms
proof (induction ks)
  case Nil
  then have "f x \<notin> f ` set xs" by simp
  then have "\<forall>y\<in>set xs. f y \<noteq> f x" by (metis imageI)
  then have "filter (\<lambda>y. f y = f x) xs = []"
    by (simp add: filter_empty_conv)
  then show ?case by simp
next
  case (Cons k ks)
  show ?case
  proof (cases "k = f x")
    case True
    with Cons.prems(1) have "f x \<notin> set ks" by auto
    then have "map (\<lambda>k. (k, filter (\<lambda>y. f y = k) xs)) ks = map (\<lambda>k. (k, filter (\<lambda>y. f y = k) (xs @ [x]))) ks"
      by (intro map_cong) auto
    with True show ?thesis by simp
  next
    case False
    with Cons show ?thesis by auto
  qed
qed

lemma GroupBy_first_seen:
  "GroupBy f xs = map (\<lambda>k. (k, filter (\<lambda>y. f y = k) xs)) (first_seen (map f xs))"
proof (induction xs rule: rev_induct)
  case Nil
  then show ?case by (simp add: GroupBy_def first_seen_def)
next
  case (snoc x xs)
  have "add_to_group (f x) x (map (\<lambda>k. (k, filter (\<lambda>y. f y = k) xs)) (first_seen (map f xs))) =
         map (\<lambda>k. (k, filter (\<lambda>y. f y = k) (xs @ [x])))
           (if f x \<in> set (first_seen (map f xs)) then first_seen (map f xs) else first_seen (map f xs) @ [f x])"
    by (rule add_to_group_keys) (simp_all add: distinct_first_seen set_first_seen)
  then show ?case
    by (simp add: GroupBy_snoc snoc first_seen_snoc set_first_seen)
qed

lemma group_total_add:
  "(\<Sum>g\<leftarrow>add_to_group k x gs. sum_list (map q (snd g))) = (\<Sum>g\<leftarrow>gs. sum_list (map q (snd g))) + (q x :: int)"
  by (induction gs) auto

lemma group_total_foldl:
  "(\<Sum>g\<leftarrow>foldl (\<lambda>gs x. add_to_group (f x) x gs) gs0 xs. sum_list (map q (snd g))) =
     (\<Sum>g\<leftarrow>gs0. sum_list (map q (snd g))) + sum_list (map (q :: 'a \<Rightarrow> int) xs)"
  by (induction xs arbitrary: gs0) (auto simp: group_total_add)

lemma group_total_GroupBy:
  "(\<Sum>g\<leftarrow>GroupBy f xs. sum_list (map q (snd g))) = sum_list (map (q :: 'a \<Rightarrow> int) xs)"
  by (simp add: GroupBy_def group_total_foldl)

lemma select_checked_value:
  "select_checked branch_sum gs = Inr sums \<Longrightarrow>
   sums = map (\<lambda>g. \<lparr>ba_Branch = fst g, Qty = sum_list (map AvailableQty (snd g))\<rparr>) gs"
  by (induction gs arbitrary: sums)
     (auto simp: branch_sum_def split: sum.splits dest: Sum_value)

lemma select_checked_ok:
  "\<forall>g\<in>set gs. Sum (map AvailableQty (snd g)) = Inr (sum_list (map AvailableQty (snd g))) \<Longrightarrow>
   select_checked branch_sum gs =
     Inr (map (\<lambda>g. \<lparr>ba_Branch = fst g, Qty = sum_list (map AvailableQty (snd g))\<rparr>) gs)"
  by (induction gs) (auto simp: branch_sum_def)

lemma sum_list_filter_le:
  "\<forall>x\<in>set xs. 0 \<le> (q x :: int) \<Longrightarrow> sum_list (map q (filter P xs)) \<le> sum_list (map q xs)"
  by (induction xs) auto

lemma branch_totals_eq:
  "map (\<lambda>g. \<lparr>ba_Branch = fst g, Qty = sum_list (map AvailableQty (snd g))\<rparr>) (GroupBy branch_key matches) =
   branch_totals matches"
  by (simp add: GroupBy_first_seen branch_totals_def comp_def)

lemma sum_branch_totals: "sum_list (map Qty (branch_totals matches)) = sum_list (map AvailableQty matches)"
proof -
  have "sum_list (map Qty (branch_totals matches)) =
        (\<Sum>g\<leftarrow>GroupBy branch_key matches. sum_list (map AvailableQty (snd g)))"
    unfolding branch_totals_eq [symmetric] by (simp add: comp_def)
  then show ?thesis by (simp add: group_total_GroupBy)
qed

text \<open>What a lookup returns, when it returns, and when it does.\<close>

lemma peak_value:
  assumes "GetPeakAvailabilityAsync items pn = Inr r"
  shows "ar_Branches r = OrderByDescending (\<le>) Qty (branch_totals (FindByPartNumberAsync items pn))
       \<and> TotalAvailable r = sum_list (map Qty (ar_Branches r))"
proof (cases "FindByPartNumberAsync items pn = []")
  case True
  with assms show ?thesis
    by (auto simp: GetPeakAvailabilityAsync_def branch_totals_def first_seen_def OrderByDescending_def
        split: if_splits)
next
  case False
  with assms obtain sums tot where
    s: "select_checked branch_sum (GroupBy branch_key (FindByPartNumberAsync items pn)) = Inr sums"
    and t: "Sum (map Qty (OrderByDescending (\<le>) Qty sums)) = Inr tot"
    and r: "r = \<lparr>ar_PartNumber = PartNumber (hd (FindByPartNumberAsync items pn)), TotalAvailable = tot,
               ar_Branches = OrderByDescending (\<le>) Qty sums\<rparr>"
    by (auto simp: GetPeakAvailabilityAsync_def Let_def split: if_splits sum.splits)
  have "sums = branch_totals (FindByPartNumberAsync items pn)"
    using select_checked_value [OF s] by (simp add: branch_totals_eq)
  with t r show ?thesis
    by (auto dest: Sum_value)
qed

lemma peak_returns:
  assumes nb: "\<not> IsNullOrWhiteSpace pn"
    and nn: "\<forall>i\<in>set (FindByPartNumberAsync items pn). 0 \<le> AvailableQty i"
    and le: "sum_list (map AvailableQty (FindByPartNumberAsync items pn)) \<le> int_MaxValue"
  shows "\<exists>r. GetPeakAvailabilityAsync items pn = Inr r"
proof (cases "FindByPartNumberAsync items pn = []")
  case True
  with nb show ?thesis by (simp add: GetPeakAvailabilityAsync_def)
next
  case False
  let ?m = "FindByPartNumberAsync items pn"
  have g: "\<forall>g\<in>set (GroupBy branch_key ?m).
      Sum (map AvailableQty (snd g)) = Inr (sum_list (map AvailableQty (snd g)))"
  proof
    fix g assume "g \<in> set (GroupBy branch_key ?m)"
    then obtain k where k: "snd g = filter (\<lambda>y. branch_key y = k) ?m"
      by (auto simp: GroupBy_first_seen)
    have "sum_list (map AvailableQty (snd g)) \<le> sum_list (map AvailableQty ?m)"
      unfolding k using nn by (rule sum_list_filter_le)
    with le have "sum_list (map AvailableQty (snd g)) \<le> int_MaxValue" by simp
    moreover have "\<forall>x\<in>set (map AvailableQty (snd g)). 0 \<le> x"
      using nn by (auto simp: k)
    ultimately show "Sum (map AvailableQty (snd g)) = Inr (sum_list (map AvailableQty (snd g)))"
      by (rule Sum_ok [rotated])
  qed
  have s: "select_checked branch_sum (GroupBy branch_key ?m) = Inr (branch_totals ?m)"
    using select_checked_ok [OF g] by (simp add: branch_totals_eq)
  have q: "\<forall>x\<in>set (map Qty (OrderByDescending (\<le>) Qty (branch_totals ?m))). 0 \<le> x"
  proof -
    have "set (OrderByDescending (\<le>) Qty (branch_totals ?m)) = set (branch_totals ?m)"
      by (metis mset_OrderByDescending set_mset_mset)
    moreover have "\<forall>b\<in>set (branch_totals ?m). 0 \<le> Qty b"
      using nn by (auto simp: branch_totals_def intro!: sum_list_nonneg)
    ultimately show ?thesis by auto
  qed
  have "sum_list (map Qty (OrderByDescending (\<le>) Qty (branch_totals ?m))) \<le> int_MaxValue"
    using le by (simp add: sum_list_OrderByDescending sum_branch_totals)
  with q have "Sum (map Qty (OrderByDescending (\<le>) Qty (branch_totals ?m))) =
      Inr (sum_list (map Qty (OrderByDescending (\<le>) Qty (branch_totals ?m))))"
    by (rule Sum_ok)
  with s False nb show ?thesis
    by (simp add: GetPeakAvailabilityAsync_def Let_def)
qed

lemma peak_overflows:
  assumes nb: "\<not> IsNullOrWhiteSpace pn"
    and nn: "\<forall>i\<in>set (FindByPartNumberAsync items pn). 0 \<le> AvailableQty i"
    and gt: "int_MaxValue < sum_list (map AvailableQty (FindByPartNumberAsync items pn))"
  shows "GetPeakAvailabilityAsync items pn = Inl OverflowException"
proof (cases "GetPeakAvailabilityAsync items pn")
  case (Inl e)
  with nb show ?thesis by (simp add: peak_error_cases)
next
  case (Inr r)
  let ?m = "FindByPartNumberAsync items pn"
  have ne: "?m \<noteq> []"
    using gt by (auto simp: int_MaxValue_def)
  from Inr nb ne obtain sums tot where
    s: "select_checked branch_sum (GroupBy branch_key ?m) = Inr sums"
    and t: "Sum (map Qty (OrderByDescending (\<le>) Qty sums)) = Inr tot"
    by (auto simp: GetPeakAvailabilityAsync_def Let_def split: if_splits sum.splits)
  have b: "sums = branch_totals ?m"
    using select_checked_value [OF s] by (simp add: branch_totals_eq)
  have "set (OrderByDescending (\<le>) Qty (branch_totals ?m)) = set (branch_totals ?m)"
    by (metis mset_OrderByDescending set_mset_mset)
  moreover have "\<forall>b\<in>set (branch_totals ?m). 0 \<le> Qty b"
    using nn by (auto simp: branch_totals_def intro!: sum_list_nonneg)
  ultimately have q: "\<forall>x\<in>set (map Qty (OrderByDescending (\<le>) Qty (branch_totals ?m))). 0 \<le> x"
    by auto
  have "int_MaxValue < sum_list (map Qty (OrderByDescending (\<le>) Qty (branch_totals ?m)))"
    using gt by (simp add: sum_list_OrderByDescending sum_branch_totals)
  with q have "Sum (map Qty (OrderByDescending (\<le>) Qty (branch_totals ?m))) = Inl OverflowException"
    by (rule Sum_overflow)
  with t b show ?thesis by simp
qed

text \<open>
  Claim C2, amended. Every result that a peak-availability lookup returns has a total that is
  the sum of the quantities of its branch list, which is the sum of the available quantities
  of the matched records. The sums are checked 32-bit sums: for a non-blank identifier and
  non-negative quantities the lookup returns a result when the sum over the matched records
  is at most 2147483647, and fails with \<open>OverflowException\<close> otherwise.
\<close>

theorem peak_total_is_sum:
  "(GetPeakAvailabilityAsync items pn = Inr r \<longrightarrow>
      TotalAvailable r = sum_list (map Qty (ar_Branches r)) \<and>
      TotalAvailable r = sum_list (map AvailableQty (FindByPartNumberAsync items pn)))
   \<and> (\<not> IsNullOrWhiteSpace pn \<and> (\<forall>i\<in>set (FindByPartNumberAsync items pn). 0 \<le> AvailableQty i) \<longrightarrow>
      (if sum_list (map AvailableQty (FindByPartNumberAsync items pn)) \<le> int_MaxValue
       then \<exists>r'. GetPeakAvailabilityAsync items pn = Inr r'
       else GetPeakAvailabilityAsync items pn = Inl OverflowException))"
proof (intro conjI impI)
  assume "GetPeakAvailabilityAsync items pn = Inr r"
  from peak_value [OF this]
  show "TotalAvailable r = sum_list (map Qty (ar_Branches r))"
    and "TotalAvailable r = sum_list (map AvailableQty (FindByPartNumberAsync items pn))"
    by (simp_all add: sum_list_OrderByDescending sum_branch_totals)
next
  assume "\<not> IsNullOrWhiteSpace pn \<and> (\<forall>i\<in>set (FindByPartNumberAsync items pn). 0 \<le> AvailableQty i)"
  then show "if sum_list (map AvailableQty (FindByPartNumberAsync items pn)) \<le> int_MaxValue
       then \<exists>r'. GetPeakAvailabilityAsync items pn = Inr r'
       else GetPeakAvailabilityAsync items pn = Inl OverflowException"
    using peak_returns [of pn items] peak_overflows [of pn items] by auto
qed

lemma peak_three: "GetPeakAvailabilityAsync [item1, item_pdx, item_lax] (Some '' pn-1000'') =
   Inr \<lparr>ar_PartNumber = Some ''PN-1000'', TotalAvailable = 17,
        ar_Branches = [\<lparr>ba_Branch = ''LAX'', Qty = 7\<rparr>, \<lparr>ba_Branch = ''SEA'', Qty = 5\<rparr>,
                       \<lparr>ba_Branch = ''PDX'', Qty = 5\<rparr>]\<rparr>"
  by code_simp

lemma find_three: "FindByPartNumberAsync [item1, item_pdx, item_lax] (Some '' pn-1000'') = [item1, item_pdx, item_lax]"
  by code_simp

lemma find_big: "FindByPartNumberAsync [item_big ''SEA'', item_big ''PDX''] (Some ''PN-1000'') = [item_big ''SEA'', item_big ''PDX'']"
  by code_simp

theorem peak_total_is_sum_witness:
  "(17::int) = sum_list (map Qty [\<lparr>ba_Branch = ''LAX'', Qty = 7\<rparr>, \<lparr>ba_Branch = ''SEA'', Qty = 5\<rparr>,
                       \<lparr>ba_Branch = ''PDX'', Qty = 5\<rparr>])
   \<and> (17::int) = sum_list (map AvailableQty [item1, item_pdx, item_lax])
   \<and> GetPeakAvailabilityAsync [item_big ''SEA'', item_big ''PDX''] (Some ''PN-1000'') = Inl OverflowException"
  using peak_total_is_sum [of "[item1, item_pdx, item_lax]" "Some '' pn-1000''"
      "\<lparr>ar_PartNumber = Some ''PN-1000'', TotalAvailable = 17,
        ar_Branches = [\<lparr>ba_Branch = ''LAX'', Qty = 7\<rparr>, \<lparr>ba_Branch = ''SEA'', Qty = 5\<rparr>,
                       \<lparr>ba_Branch = ''PDX'', Qty = 5\<rparr>]\<rparr>"]
    peak_total_is_sum [of "[item_big ''SEA'', item_big ''PDX'']" "Some ''PN-1000''"]
    peak_three find_three find_big
  by (simp add: item_big_def int_MaxValue_def IsNullOrWhiteSpace_def is_blank_def is_white_space_def)

text \<open>
  The claim as it stands fails: two matching records of quantity 2147483647 make the lookup
  throw, and no total is returned.
\<close>

theorem peak_total_overflow_counterexample:
  "\<not> IsNullOrWhiteSpace (Some ''PN-1000'')
   \<and> FindByPartNumberAsync [item_big ''SEA'', item_big ''PDX''] (Some ''PN-1000'') = [item_big ''SEA'', item_big ''PDX'']
   \<and> GetPeakAvailabilityAsync [item_big ''SEA'', item_big ''PDX''] (Some ''PN-1000'') = Inl OverflowException"
  by code_simp

text \<open>
  Claim C8, amended. The branch list of every returned result is sorted by summed quantity,
  descending, and the branches of one quantity stand in the order in which they first occur
  among the matched records: the sort is stable and no branch code is compared. A result is
  returned under the conditions of C2.
\<close>

theorem peak_branches_sorted_stable:
  "(GetPeakAvailabilityAsync items pn = Inr r \<longrightarrow>
      sorted_wrt (\<lambda>a b. Qty b \<le> Qty a) (ar_Branches r) \<and>
      filter (\<lambda>b. Qty b = q) (ar_Branches r) =
        filter (\<lambda>b. Qty b = q) (branch_totals (FindByPartNumberAsync items pn)))
   \<and> (\<not> IsNullOrWhiteSpace pn \<and> (\<forall>i\<in>set (FindByPartNumberAsync items pn). 0 \<le> AvailableQty i)
        \<and> sum_list (map AvailableQty (FindByPartNumberAsync items pn)) \<le> int_MaxValue \<longrightarrow>
      (\<exists>r'. GetPeakAvailabilityAsync items pn = Inr r'))"
proof (intro conjI impI)
  assume "GetPeakAvailabilityAsync items pn = Inr r"
  from peak_value [OF this]
  have b: "ar_Branches r = OrderByDescending (\<le>) Qty (branch_totals (FindByPartNumberAsync items pn))"
    by simp
  show "sorted_wrt (\<lambda>a b. Qty b \<le> Qty a) (ar_Branches r)"
    unfolding b by (rule sorted_OrderByDescending)
  show "filter (\<lambda>b. Qty b = q) (ar_Branches r) =
        filter (\<lambda>b. Qty b = q) (branch_totals (FindByPartNumberAsync items pn))"
    unfolding b by (rule stable_OrderByDescending)
next
  assume "\<not> IsNullOrWhiteSpace pn \<and> (\<forall>i\<in>set (FindByPartNumberAsync items pn). 0 \<le> AvailableQty i)
        \<and> sum_list (map AvailableQty (FindByPartNumberAsync items pn)) \<le> int_MaxValue"
  then show "\<exists>r'. GetPeakAvailabilityAsync items pn = Inr r'"
    using peak_returns [of pn items] by simp
qed

lemma totals_three: "branch_totals [item1, item_pdx, item_lax] =
   [\<lparr>ba_Branch = ''SEA'', Qty = 5\<rparr>, \<lparr>ba_Branch = ''PDX'', Qty = 5\<rparr>, \<lparr>ba_Branch = ''LAX'', Qty = 7\<rparr>]"
  by code_simp

theorem peak_branches_sorted_stable_witness:
  "sorted_wrt (\<lambda>a b. Qty b \<le> Qty a)
     [\<lparr>ba_Branch = ''LAX'', Qty = 7\<rparr>, \<lparr>ba_Branch = ''SEA'', Qty = 5\<rparr>, \<lparr>ba_Branch = ''PDX'', Qty = 5\<rparr>]
   \<and> filter (\<lambda>b. Qty b = 5)
       [\<lparr>ba_Branch = ''LAX'', Qty = 7\<rparr>, \<lparr>ba_Branch = ''SEA'', Qty = 5\<rparr>, \<lparr>ba_Branch = ''PDX'', Qty = 5\<rparr>]
     = [\<lparr>ba_Branch = ''SEA'', Qty = 5\<rparr>, \<lparr>ba_Branch = ''PDX'', Qty = 5\<rparr>]
   \<and> (\<exists>r'. GetPeakAvailabilityAsync [item1, item_pdx, item_lax] (Some '' pn-1000'') = Inr r')"
  using peak_branches_sorted_stable [of "[item1, item_pdx, item_lax]" "Some '' pn-1000''"
      "\<lparr>ar_PartNumber = Some ''PN-1000'', TotalAvailable = 17,
        ar_Branches = [\<lparr>ba_Branch = ''LAX'', Qty = 7\<rparr>, \<lparr>ba_Branch = ''SEA'', Qty = 5\<rparr>,
                       \<lparr>ba_Branch = ''PDX'', Qty = 5\<rparr>]\<rparr>" 5]
    peak_three find_three totals_three
  by (simp add: int_MaxValue_def IsNullOrWhiteSpace_def is_blank_def is_white_space_def
      item1_def item_pdx_def item_lax_def)

text \<open>
  The claim as it stands fails: \<open>SEA\<close> and \<open>PDX\<close>, both with quantity 5, come out in the
  order of the records, \<open>SEA\<close> first.
\<close>

theorem peak_ties_counterexample:
  "GetPeakAvailabilityAsync [item1, item_pdx] (Some ''PN-1000'') =
     Inr \<lparr>ar_PartNumber = Some ''PN-1000'', TotalAvailable = 10,
          ar_Branches = [\<lparr>ba_Branch = ''SEA'', Qty = 5\<rparr>, \<lparr>ba_Branch = ''PDX'', Qty = 5\<rparr>]\<rparr>
   \<and> \<not> claimed_branch_order [\<lparr>ba_Branch = ''SEA'', Qty = 5\<rparr>, \<lparr>ba_Branch = ''PDX'', Qty = 5\<rparr>]"
proof -
  have "GetPeakAvailabilityAsync [item1, item_pdx] (Some ''PN-1000'') =
     Inr \<lparr>ar_PartNumber = Some ''PN-1000'', TotalAvailable = 10,
          ar_Branches = [\<lparr>ba_Branch = ''SEA'', Qty = 5\<rparr>, \<lparr>ba_Branch = ''PDX'', Qty = 5\<rparr>]\<rparr>"
    by code_simp
  moreover have "\<not> claimed_branch_order [\<lparr>ba_Branch = ''SEA'', Qty = 5\<rparr>, \<lparr>ba_Branch = ''PDX'', Qty = 5\<rparr>]"
    by (simp add: claimed_branch_order_def)
  ultimately show ?thesis by simp
qed

section \<open>Properties of the client cache\<close>

subsection \<open>Capacity\<close>

lemma length_shift_excess: "length (shift_excess xs) \<le> CACHE_MAX_ENTRIES"
proof (induction xs rule: shift_excess.induct)
  case (1 xs)
  then show ?case by (subst shift_excess.simps) auto
qed

lemma shift_excess_id: "length xs \<le> CACHE_MAX_ENTRIES \<Longrightarrow> shift_excess xs = xs"
  by (subst shift_excess.simps) simp

lemma length_remember: "length (remember now c k ob) \<le> CACHE_MAX_ENTRIES"
  by (simp add: remember_def Let_def length_shift_excess)

lemma search_cache_bounded:
  "length (cache s) \<le> CACHE_MAX_ENTRIES \<Longrightarrow> length (cache (snd (search q now now_r s))) \<le> CACHE_MAX_ENTRIES"
  by (auto simp: search_def Let_def length_remember split: option.splits
      intro: order_trans [OF length_filter_le])

lemma search_peakCache: "peakCache (snd (search q now now_r s)) = peakCache s"
  by (simp add: search_def Let_def split: option.splits)

lemma peak_peakCache_bounded:
  "length (peakCache s) \<le> CACHE_MAX_ENTRIES \<Longrightarrow>
   length (peakCache (snd (getPeakAvailability p now now_r s))) \<le> CACHE_MAX_ENTRIES"
  by (auto simp: getPeakAvailability_def Let_def length_remember split: option.splits
      intro: order_trans [OF length_filter_le])

lemma peak_cache: "cache (snd (getPeakAvailability p now now_r s)) = cache s"
  by (simp add: getPeakAvailability_def Let_def split: option.splits)

lemma step_bounded: "bounded s \<Longrightarrow> bounded (step s ev)"
proof (cases ev)
  case (SearchCall q now now_r)
  assume "bounded s"
  with SearchCall show ?thesis
    by (simp add: bounded_def search_cache_bounded search_peakCache)
next
  case (PeakCall p now now_r)
  assume "bounded s"
  with PeakCall show ?thesis
    by (simp add: bounded_def peak_peakCache_bounded peak_cache)
next
  case (SearchDelivers k n)
  assume "bounded s"
  with SearchDelivers show ?thesis
    by (auto simp: bounded_def search_tap_def split: notification.splits
        intro: order_trans [OF length_filter_le])
next
  case (PeakDelivers k n)
  assume "bounded s"
  with PeakDelivers show ?thesis
    by (auto simp: bounded_def peak_tap_def split: notification.splits
        intro: order_trans [OF length_filter_le])
qed

lemma run_bounded: "bounded s \<Longrightarrow> bounded (run evs s)"
  unfolding run_def by (induction evs arbitrary: s) (auto simp: step_bounded)

lemma bounded_init: "bounded init_service"
  by (simp add: bounded_def init_service_def)

text \<open>A full cache of live entries loses the head of its entries sorted by expiry.\<close>

lemma mset_OrderBy: "mset (OrderBy le f xs) = mset xs"
  by (induction xs) (auto simp: OrderBy_def mset_insert_by)

lemma sorted_insert_asc:
  "sorted_wrt (\<lambda>a b. f a \<le> f b) ys \<Longrightarrow>
   sorted_wrt (\<lambda>a b. (f a :: int) \<le> f b) (insert_by (\<le>) f x ys)"
  by (induction ys) (auto simp: set_insert_by)

lemma sorted_OrderBy: "sorted_wrt (\<lambda>a b. (f a :: int) \<le> f b) (OrderBy (\<le>) f xs)"
  by (induction xs) (auto simp: OrderBy_def sorted_insert_asc)

lemma remember_full:
  assumes len: "length c = CACHE_MAX_ENTRIES" and live: "\<forall>e\<in>set c. now < expiry e"
  shows "\<exists>victim rest. OrderBy (\<le>) expiry c = victim # rest
     \<and> (\<forall>e\<in>set c. expiry victim \<le> expiry e)
     \<and> mset c = add_mset victim (mset rest)
     \<and> remember now c k ob = rest @ [\<lparr>key = k, expiry = now + CACHE_TTL_MS, obs = ob\<rparr>]"
proof -
  have f: "filter (\<lambda>e. now < expiry e) c = c"
    using live by simp
  have "length (OrderBy (\<le>) expiry c) = CACHE_MAX_ENTRIES"
    using len by (simp add: length_OrderBy)
  then obtain victim rest where vr: "OrderBy (\<le>) expiry c = victim # rest"
    and lr: "length rest = CACHE_MAX_ENTRIES - 1"
    by (cases "OrderBy (\<le>) expiry c") (auto simp: CACHE_MAX_ENTRIES_def)
  have m: "mset c = add_mset victim (mset rest)"
    using mset_OrderBy [of "(\<le>)" expiry c] vr by simp
  have "sorted_wrt (\<lambda>a b. expiry a \<le> expiry b) (victim # rest)"
    using sorted_OrderBy [of expiry c] vr by simp
  then have "\<forall>e\<in>set rest. expiry victim \<le> expiry e" by simp
  moreover have "set c = insert victim (set rest)"
    using m by (metis set_mset_add_mset_insert set_mset_mset)
  ultimately have least: "\<forall>e\<in>set c. expiry victim \<le> expiry e" by simp
  have "length (rest @ [\<lparr>key = k, expiry = now + CACHE_TTL_MS, obs = ob\<rparr>]) \<le> CACHE_MAX_ENTRIES"
    using lr by (simp add: CACHE_MAX_ENTRIES_def)
  then have "shift_excess (rest @ [\<lparr>key = k, expiry = now + CACHE_TTL_MS, obs = ob\<rparr>]) =
      rest @ [\<lparr>key = k, expiry = now + CACHE_TTL_MS, obs = ob\<rparr>]"
    by (rule shift_excess_id)
  then have "remember now c k ob = rest @ [\<lparr>key = k, expiry = now + CACHE_TTL_MS, obs = ob\<rparr>]"
    using len by (simp add: remember_def Let_def f vr)
  with vr least m show ?thesis by blast
qed

text \<open>
  Claim C4. After every sequence of calls and deliveries, from the start of the service, the
  search cache and the peak cache hold at most 5 entries each. Remembering a request in a
  cache of 5 entries, none expired, evicts exactly one of them, one whose expiry is the
  earliest, and leaves the other four and the new entry: 5 entries.
\<close>

theorem cache_capacity_and_eviction:
  "length (cache (run evs init_service)) \<le> 5 \<and> length (peakCache (run evs init_service)) \<le> 5
   \<and> (length c = 5 \<and> (\<forall>e\<in>set c. now < expiry e) \<longrightarrow>
        (\<exists>victim. victim \<in> set c \<and> (\<forall>e\<in>set c. expiry victim \<le> expiry e)
           \<and> mset (remember now c k ob) =
               add_mset \<lparr>key = k, expiry = now + 60000, obs = ob\<rparr> (mset c - {#victim#})
           \<and> length (remember now c k ob) = 5))"
proof (intro conjI impI)
  have "bounded (run evs init_service)"
    using bounded_init by (rule run_bounded)
  then show "length (cache (run evs init_service)) \<le> 5"
    and "length (peakCache (run evs init_service)) \<le> 5"
    by (simp_all add: bounded_def CACHE_MAX_ENTRIES_def)
next
  assume a: "length c = 5 \<and> (\<forall>e\<in>set c. now < expiry e)"
  then have "length c = CACHE_MAX_ENTRIES" and "\<forall>e\<in>set c. now < expiry e"
    by (simp_all add: CACHE_MAX_ENTRIES_def)
  from remember_full [OF this, of k ob] obtain victim rest where
    least: "\<forall>e\<in>set c. expiry victim \<le> expiry e"
    and m: "mset c = add_mset victim (mset rest)"
    and r: "remember now c k ob = rest @ [\<lparr>key = k, expiry = now + CACHE_TTL_MS, obs = ob\<rparr>]"
    by blast
  have "victim \<in> set c"
    using m by (metis set_mset_mset union_single_eq_member)
  moreover have "mset (remember now c k ob) =
      add_mset \<lparr>key = k, expiry = now + 60000, obs = ob\<rparr> (mset c - {#victim#})"
    by (simp add: r m CACHE_TTL_MS_def)
  moreover have "length (remember now c k ob) = 5"
  proof -
    have "size (mset c) = Suc (size (mset rest))" by (simp add: m)
    then have "length rest = 4" using a by simp
    then show ?thesis by (simp add: r)
  qed
  ultimately show "\<exists>victim. victim \<in> set c \<and> (\<forall>e\<in>set c. expiry victim \<le> expiry e)
           \<and> mset (remember now c k ob) =
               add_mset \<lparr>key = k, expiry = now + 60000, obs = ob\<rparr> (mset c - {#victim#})
           \<and> length (remember now c k ob) = 5"
    using least by blast
qed

text \<open>
  In \<open>cache5\<close> the entry that expires first is the second one; six searches in a row for six
  different pages leave the last five.
\<close>

lemma remember_cache5:
  "remember 5 cache5 ''k6'' 5 =
     [entry ''k5'' 20 4, entry ''k3'' 30 2, entry ''k4'' 40 3, entry ''k1'' 50 0, entry ''k6'' 60005 5]"
  by code_simp

lemma six_searches_keys:
  "map key (cache (run six_searches init_service)) =
     map (\<lambda>n. cacheKey (query1\<lparr>q_page := int n\<rparr>)) [1..<6]"
  by code_simp

theorem cache_capacity_and_eviction_witness:
  "length cache5 = 5 \<and> list_all (\<lambda>e. 5 < expiry e) cache5
   \<and> length (cache (run six_searches init_service)) \<le> 5
   \<and> length (peakCache (run six_searches init_service)) \<le> 5
   \<and> (\<exists>victim. victim \<in> set cache5 \<and> list_all (\<lambda>e. expiry victim \<le> expiry e) cache5
         \<and> mset (remember 5 cache5 ''k6'' 5) =
             add_mset \<lparr>key = ''k6'', expiry = 5 + 60000, obs = 5\<rparr> (mset cache5 - {#victim#})
         \<and> length (remember 5 cache5 ''k6'' 5) = 5)"
proof -
  have "length cache5 = 5" and l: "list_all (\<lambda>e. 5 < expiry e) cache5"
    by (simp_all add: cache5_def entry_def)
  with cache_capacity_and_eviction [of six_searches cache5 5 "''k6''" 5]
  show ?thesis by (simp add: list_all_iff)
qed

subsection \<open>Failures\<close>













subsection \<open>The cache key\<close>













































section \<open>Properties of the search orchestrator\<close>

subsection \<open>Only the request issued last is subscribed\<close>

lemma switch_inv_iff:
  "switch_inv s \<longleftrightarrow>
     (\<forall>n<length (subs s). subs s ! n = Active \<longrightarrow> innerSubscriber s = Some n)
     \<and> (\<forall>m. innerSubscriber s = Some m \<longrightarrow> Suc m = length (subs s))"
proof -
  have "list_all (\<lambda>n. subs s ! n = Active \<longrightarrow> innerSubscriber s = Some n) [0..<length (subs s)]
      \<longleftrightarrow> (\<forall>n<length (subs s). subs s ! n = Active \<longrightarrow> innerSubscriber s = Some n)"
    by (auto simp: list_all_iff)
  moreover have "(case innerSubscriber s of None \<Rightarrow> True | Some m \<Rightarrow> Suc m = length (subs s))
      \<longleftrightarrow> (\<forall>m. innerSubscriber s = Some m \<longrightarrow> Suc m = length (subs s))"
    by (cases "innerSubscriber s") simp_all
  ultimately show ?thesis
    unfolding switch_inv_def by blast
qed

lemma switch_inv_init: "switch_inv (init_page d)"
  by (simp add: switch_inv_iff init_page_def)

lemma switch_inv_fields:
  "subs s' = subs s \<Longrightarrow> innerSubscriber s' = innerSubscriber s \<Longrightarrow> switch_inv s' = switch_inv s"
  by (simp only: switch_inv_iff)

lemma subs_fire:
  "subs (fire s) =
     (case buildQuery s of
        None \<Rightarrow> subs s
      | Some q \<Rightarrow> (case innerSubscriber s of None \<Rightarrow> subs s | Some m \<Rightarrow> (subs s)[m := Unsubscribed]) @ [Active])"
  by (simp add: fire_def Let_def split: option.splits)

lemma inner_fire:
  "innerSubscriber (fire s) =
     (case buildQuery s of None \<Rightarrow> innerSubscriber s | Some q \<Rightarrow> Some (length (subs s)))"
  by (simp add: fire_def Let_def split: option.splits)

lemma issue_keeps:
  assumes a: "\<forall>n<length xs. xs ! n = Active \<longrightarrow> i = Some n"
    and l: "\<forall>m. i = Some m \<longrightarrow> Suc m = length xs"
  shows "\<forall>n<length ((case i of None \<Rightarrow> xs | Some m \<Rightarrow> xs[m := Unsubscribed]) @ [Active]).
           ((case i of None \<Rightarrow> xs | Some m \<Rightarrow> xs[m := Unsubscribed]) @ [Active]) ! n = Active
           \<longrightarrow> n = length xs"
proof (intro allI impI)
  fix n
  let ?ys = "case i of None \<Rightarrow> xs | Some m \<Rightarrow> xs[m := Unsubscribed]"
  assume n: "n < length (?ys @ [Active])" and act: "(?ys @ [Active]) ! n = Active"
  have len: "length ?ys = length xs" by (cases i) simp_all
  show "n = length xs"
  proof (rule ccontr)
    assume "n \<noteq> length xs"
    with n len have lt: "n < length xs" by simp
    with act len have y: "?ys ! n = Active" by (simp add: nth_append)
    show False
    proof (cases i)
      case None
      with y have "xs ! n = Active" by simp
      with a lt None show False by simp
    next
      case (Some m)
      have "n \<noteq> m"
      proof
        assume "n = m"
        with y lt Some show False by simp
      qed
      with y Some have "xs ! n = Active" by simp
      with a lt Some \<open>n \<noteq> m\<close> show False by simp
    qed
  qed
qed

lemma switch_inv_fire: "switch_inv s \<Longrightarrow> switch_inv (fire s)"
proof (cases "buildQuery s")
  case None
  assume "switch_inv s"
  with None show ?thesis by (simp add: fire_def)
next
  case (Some q)
  assume inv: "switch_inv s"
  then have a: "\<forall>n<length (subs s). subs s ! n = Active \<longrightarrow> innerSubscriber s = Some n"
    and l: "\<forall>m. innerSubscriber s = Some m \<longrightarrow> Suc m = length (subs s)"
    unfolding switch_inv_iff by blast+
  let ?ys = "case innerSubscriber s of None \<Rightarrow> subs s | Some m \<Rightarrow> (subs s)[m := Unsubscribed]"
  have len: "length ?ys = length (subs s)" by (cases "innerSubscriber s") simp_all
  have s': "subs (fire s) = ?ys @ [Active]" and i': "innerSubscriber (fire s) = Some (length (subs s))"
    using Some by (simp_all add: subs_fire inner_fire)
  from issue_keeps [OF a l]
  have "\<forall>n<length (subs (fire s)). subs (fire s) ! n = Active \<longrightarrow> innerSubscriber (fire s) = Some n"
    unfolding s' i' by blast
  moreover have "\<forall>m. innerSubscriber (fire s) = Some m \<longrightarrow> Suc m = length (subs (fire s))"
    unfolding s' i' using len by simp
  ultimately show ?thesis
    by (simp only: switch_inv_iff)
qed

lemma switch_inv_trigger: "switch_inv s \<Longrightarrow> switch_inv (trigger s)"
proof -
  assume inv: "switch_inv s"
  have "switch_inv (s\<lparr>pending := True\<rparr>) = switch_inv s"
    by (rule switch_inv_fields) simp_all
  with inv show ?thesis
    by (simp add: trigger_def switch_inv_fire)
qed


lemma switch_inv_deliver: "switch_inv s \<Longrightarrow> switch_inv (deliver n out s)"
proof (cases "n < length (subs s) \<and> subs s ! n = Active")
  case False
  assume "switch_inv s"
  moreover from False have "deliver n out s = s"
    unfolding deliver_def by (rule if_not_P)
  ultimately show ?thesis by simp
next
  case True
  assume inv: "switch_inv s"
  then have a: "\<forall>k<length (subs s). subs s ! k = Active \<longrightarrow> innerSubscriber s = Some k"
    and l: "\<forall>m. innerSubscriber s = Some m \<longrightarrow> Suc m = length (subs s)"
    unfolding switch_inv_iff by blast+
  from a True have i: "innerSubscriber s = Some n" by simp
  have only: "\<And>k c. k < length (subs s) \<Longrightarrow> c \<noteq> Active \<Longrightarrow> (subs s)[n := c] ! k \<noteq> Active"
  proof -
    fix k c assume k: "k < length (subs s)" and c: "c \<noteq> Active"
    show "(subs s)[n := c] ! k \<noteq> Active"
    proof (cases "k = n")
      case True
      with k c show ?thesis by simp
    next
      case False
      with a k i have "subs s ! k \<noteq> Active" by auto
      with False show ?thesis by simp
    qed
  qed
  show ?thesis
  proof (cases out)
    case (Next res)
    with True have s': "subs (deliver n out s) = (subs s)[n := Completed]"
      and i': "innerSubscriber (deliver n out s) = None"
      by (simp_all add: deliver_def)
    show ?thesis
      unfolding switch_inv_iff s' i' using only [of _ Completed] by simp
  next
    case HttpError
    with True have s': "subs (deliver n out s) = (subs s)[n := Errored]"
      and i': "innerSubscriber (deliver n out s) = innerSubscriber s"
      by (simp_all add: deliver_def)
    show ?thesis
      unfolding switch_inv_iff s' i' using only [of _ Errored] l by simp
  qed
qed

lemma switch_inv_onSearch: "switch_inv s \<Longrightarrow> switch_inv (onSearch s)"
proof (cases "form_invalid s")
  case True
  assume "switch_inv s"
  moreover have "switch_inv (s\<lparr>errorMessage := Some ''Enter search criteria to begin.''\<rparr>) = switch_inv s"
    by (rule switch_inv_fields) simp_all
  ultimately show ?thesis using True by (simp add: onSearch_def)
next
  case False
  assume inv: "switch_inv s"
  let ?s1 = "s\<lparr>errorMessage := None, loading_s := True, currentPage := 0\<rparr>"
  let ?s2 = "if page_s ?s1 \<noteq> 0 then trigger (?s1\<lparr>page_s := 0\<rparr>) else ?s1"
  have "switch_inv ?s1 = switch_inv s"
    by (rule switch_inv_fields) simp_all
  with inv have 1: "switch_inv ?s1" by simp
  have "switch_inv (?s1\<lparr>page_s := 0\<rparr>) = switch_inv ?s1"
    by (rule switch_inv_fields) simp_all
  with 1 have "switch_inv (trigger (?s1\<lparr>page_s := 0\<rparr>))"
    by (intro switch_inv_trigger) simp
  with 1 have "switch_inv ?s2" by simp
  then have "switch_inv (trigger ?s2)" by (rule switch_inv_trigger)
  moreover have "onSearch s = trigger ?s2"
    using False by (simp add: onSearch_def Let_def)
  ultimately show ?thesis by simp
qed

lemma switch_inv_onSort: "switch_inv s \<Longrightarrow> switch_inv (onSort f s)"
proof -
  assume inv: "switch_inv s"
  let ?dir = "if fst (sortState s) = Some f \<and> snd (sortState s) = Asc then Desc else Asc"
  let ?s1 = "trigger (s\<lparr>sortState := (Some f, ?dir)\<rparr>)"
  let ?s2 = "?s1\<lparr>currentPage := 0\<rparr>"
  have "switch_inv (s\<lparr>sortState := (Some f, ?dir)\<rparr>) = switch_inv s"
    by (rule switch_inv_fields) simp_all
  with inv have 1: "switch_inv ?s1"
    by (intro switch_inv_trigger) simp
  have "switch_inv (?s2\<lparr>page_s := 0\<rparr>) = switch_inv ?s1"
    by (rule switch_inv_fields) simp_all
  with 1 have "switch_inv (trigger (?s2\<lparr>page_s := 0\<rparr>))"
    by (intro switch_inv_trigger) simp
  moreover have "onSort f s = trigger (?s2\<lparr>page_s := 0\<rparr>)"
    by (simp add: onSort_def Let_def)
  ultimately show ?thesis by simp
qed

lemma switch_inv_onPageChange: "switch_inv s \<Longrightarrow> switch_inv (onPageChange i s)"
proof -
  assume inv: "switch_inv s"
  let ?s1 = "s\<lparr>currentPage := max 0 i\<rparr>"
  have "switch_inv (?s1\<lparr>page_s := currentPage ?s1\<rparr>) = switch_inv s"
    by (rule switch_inv_fields) simp_all
  with inv have "switch_inv (trigger (?s1\<lparr>page_s := currentPage ?s1\<rparr>))"
    by (intro switch_inv_trigger) simp
  moreover have "onPageChange i s = trigger (?s1\<lparr>page_s := currentPage ?s1\<rparr>)"
    by (simp add: onPageChange_def Let_def)
  ultimately show ?thesis by simp
qed

lemma switch_inv_step: "switch_inv s \<Longrightarrow> switch_inv (page_step s ev)"
proof (cases ev)
  case (SetCriteria c)
  assume "switch_inv s"
  moreover have "switch_inv (s\<lparr>form_criteria := c\<rparr>) = switch_inv s"
    by (rule switch_inv_fields) simp_all
  ultimately show ?thesis by (simp add: SetCriteria)
next
  case (SetBy b)
  assume "switch_inv s"
  moreover have "switch_inv (s\<lparr>form_by := b\<rparr>) = switch_inv s"
    by (rule switch_inv_fields) simp_all
  ultimately show ?thesis by (simp add: SetBy)
next
  case (SetBranches bs)
  assume "switch_inv s"
  moreover have "switch_inv (s\<lparr>form_branches := bs\<rparr>) = switch_inv s"
    by (rule switch_inv_fields) simp_all
  ultimately show ?thesis by (simp add: SetBranches)
next
  case (SetOnlyAvailable a)
  assume "switch_inv s"
  moreover have "switch_inv (s\<lparr>form_onlyAvailable := a\<rparr>) = switch_inv s"
    by (rule switch_inv_fields) simp_all
  ultimately show ?thesis by (simp add: SetOnlyAvailable)
next
  case OnSearch
  assume "switch_inv s"
  then show ?thesis by (simp add: OnSearch switch_inv_onSearch)
next
  case (OnSort f)
  assume "switch_inv s"
  then show ?thesis by (simp add: OnSort switch_inv_onSort)
next
  case (OnPageChange i)
  assume "switch_inv s"
  then show ?thesis by (simp add: OnPageChange switch_inv_onPageChange)
next
  case DebounceElapsed
  assume inv: "switch_inv s"
  have "switch_inv (s\<lparr>pending := False\<rparr>) = switch_inv s"
    by (rule switch_inv_fields) simp_all
  with inv have "switch_inv (fire (s\<lparr>pending := False\<rparr>))"
    by (intro switch_inv_fire) simp
  with inv show ?thesis by (simp add: DebounceElapsed)
next
  case (Delivers n out)
  assume "switch_inv s"
  then show ?thesis by (simp add: Delivers switch_inv_deliver)
qed

lemma switch_inv_run: "switch_inv s \<Longrightarrow> switch_inv (page_run evs s)"
  unfolding page_run_def by (induction evs arbitrary: s) (simp_all add: switch_inv_step)

lemma stale_ignored:
  assumes "switch_inv s" and "Suc n \<noteq> length (subs s)"
  shows "deliver n out s = s"
proof (cases "n < length (subs s) \<and> subs s ! n = Active")
  case True
  with assms(1) have "innerSubscriber s = Some n"
    unfolding switch_inv_iff by blast
  with assms(1) have "Suc n = length (subs s)"
    unfolding switch_inv_iff by blast
  with assms(2) show ?thesis by simp
next
  case False
  then show ?thesis
    unfolding deliver_def by (rule if_not_P)
qed

text \<open>
  Claim C6, amended. After every run of the component, what a request other than the one issued
  last delivers, a response or an error, changes nothing: not the published items, total and
  error, nor anything else; the run goes on as if it had not been delivered. A request is
  issued when a trigger has passed the debounce stage and the form gives a query; from then on
  every request issued before it is discarded.
\<close>

theorem superseded_request_is_discarded:
  "(Suc n \<noteq> length (subs (page_run evs (init_page d))) \<longrightarrow>
      page_step (page_run evs (init_page d)) (Delivers n out) = page_run evs (init_page d))
   \<and> (Suc n \<noteq> length (subs (page_run evs (init_page d))) \<longrightarrow>
      page_run (evs @ Delivers n out # evs') (init_page d) = page_run (evs @ evs') (init_page d))"
proof -
  have inv: "switch_inv (page_run evs (init_page d))"
    using switch_inv_init by (rule switch_inv_run)
  have 1: "Suc n \<noteq> length (subs (page_run evs (init_page d))) \<longrightarrow>
      page_step (page_run evs (init_page d)) (Delivers n out) = page_run evs (init_page d)"
    using stale_ignored [OF inv] by simp
  then have "Suc n \<noteq> length (subs (page_run evs (init_page d))) \<longrightarrow>
      page_run (evs @ Delivers n out # evs') (init_page d) = page_run (evs @ evs') (init_page d)"
    by (simp add: page_run_def)
  with 1 show ?thesis by blast
qed

lemma two_requests:
  "length (subs (page_run (first_search @ [OnPageChange 1, DebounceElapsed]) (init_page 50))) = 2"
  by code_simp

theorem superseded_request_is_discarded_witness:
  "length (subs (page_run (first_search @ [OnPageChange 1, DebounceElapsed]) (init_page 50))) = 2
   \<and> page_step (page_run (first_search @ [OnPageChange 1, DebounceElapsed]) (init_page 50))
        (Delivers 0 (Next ok_envelope)) =
      page_run (first_search @ [OnPageChange 1, DebounceElapsed]) (init_page 50)
   \<and> page_run ((first_search @ [OnPageChange 1, DebounceElapsed]) @ Delivers 0 (Next ok_envelope)
        # [Delivers 1 (Next failed_page)]) (init_page 50) =
      page_run ((first_search @ [OnPageChange 1, DebounceElapsed]) @ [Delivers 1 (Next failed_page)]) (init_page 50)"
  using superseded_request_is_discarded [of 0 "first_search @ [OnPageChange 1, DebounceElapsed]" 50
      "Next ok_envelope" "[Delivers 1 (Next failed_page)]"] two_requests
  by simp

text \<open>
  The claim as it stands fails: a page change that arrives while the first request is
  outstanding waits in \<open>debounceTime\<close>; the response of the first request arrives before the
  timer fires and is published.
\<close>

theorem result_in_debounce_window_counterexample:
  "subs (page_run (first_search @ [OnPageChange 1]) (init_page 50)) = [Active]
   \<and> pending (page_run (first_search @ [OnPageChange 1]) (init_page 50))
   \<and> page_s (page_run (first_search @ [OnPageChange 1]) (init_page 50)) = 1
   \<and> items_s (page_run (first_search @ [OnPageChange 1]) (init_page 50)) = []
   \<and> total_s (page_run (first_search @ [OnPageChange 1]) (init_page 50)) = 0
   \<and> items_s (page_run (first_search @ [OnPageChange 1, Delivers 0 (Next ok_envelope)]) (init_page 50)) = [item1]
   \<and> total_s (page_run (first_search @ [OnPageChange 1, Delivers 0 (Next ok_envelope)]) (init_page 50)) = 1"
  by code_simp

subsection \<open>A failed response\<close>

text \<open>
  Claim C7, amended. When the response of the subscribed request is a failure envelope, loading
  is cleared and the error message is published (the message of the envelope, or
  \<open>Search failed\<close> when it has none), and the published items and total are reset to the
  empty list and 0, whether or not the request is the first.
\<close>

theorem failed_response_resets_items:
  assumes "n < length (subs s)" and "subs s ! n = Active" and "isFailed res"
  shows "loading_s (page_step s (Delivers n (Next res))) = False
       \<and> errorMessage (page_step s (Delivers n (Next res))) =
           Some (case message res of None \<Rightarrow> ''Search failed''
                 | Some m \<Rightarrow> if m = [] then ''Search failed'' else m)
       \<and> items_s (page_step s (Delivers n (Next res))) = []
       \<and> total_s (page_step s (Delivers n (Next res))) = 0"
  using assms by (simp add: deliver_def)

lemma second_request_active:
  "1 < length (subs (page_run (first_search @ [Delivers 0 (Next ok_envelope), OnPageChange 1, DebounceElapsed]) (init_page 50)))
   \<and> subs (page_run (first_search @ [Delivers 0 (Next ok_envelope), OnPageChange 1, DebounceElapsed]) (init_page 50)) ! 1 = Active"
  by code_simp

theorem failed_response_resets_items_witness:
  "loading_s (page_step (page_run (first_search @ [Delivers 0 (Next ok_envelope), OnPageChange 1, DebounceElapsed]) (init_page 50))
       (Delivers 1 (Next failed_page))) = False
   \<and> errorMessage (page_step (page_run (first_search @ [Delivers 0 (Next ok_envelope), OnPageChange 1, DebounceElapsed]) (init_page 50))
       (Delivers 1 (Next failed_page))) = Some ''Forced failure (fail=true)''
   \<and> items_s (page_step (page_run (first_search @ [Delivers 0 (Next ok_envelope), OnPageChange 1, DebounceElapsed]) (init_page 50))
       (Delivers 1 (Next failed_page))) = []
   \<and> total_s (page_step (page_run (first_search @ [Delivers 0 (Next ok_envelope), OnPageChange 1, DebounceElapsed]) (init_page 50))
       (Delivers 1 (Next failed_page))) = 0"
  using failed_response_resets_items [of 1
      "page_run (first_search @ [Delivers 0 (Next ok_envelope), OnPageChange 1, DebounceElapsed]) (init_page 50)"
      failed_page] second_request_active
  by (simp add: failed_page_def)

text \<open>
  The claim as it stands fails: after a successful first request that published one item,
  the failure of the second request leaves no item and total 0.
\<close>

theorem failure_clears_items_counterexample:
  "items_s (page_run (first_search @ [Delivers 0 (Next ok_envelope), OnPageChange 1, DebounceElapsed]) (init_page 50)) = [item1]
   \<and> total_s (page_run (first_search @ [Delivers 0 (Next ok_envelope), OnPageChange 1, DebounceElapsed]) (init_page 50)) = 1
   \<and> subs (page_run (first_search @ [Delivers 0 (Next ok_envelope), OnPageChange 1, DebounceElapsed]) (init_page 50)) = [Completed, Active]
   \<and> isFailed failed_page
   \<and> items_s (page_run (first_search @ [Delivers 0 (Next ok_envelope), OnPageChange 1, DebounceElapsed,
        Delivers 1 (Next failed_page)]) (init_page 50)) = []
   \<and> total_s (page_run (first_search @ [Delivers 0 (Next ok_envelope), OnPageChange 1, DebounceElapsed,
        Delivers 1 (Next failed_page)]) (init_page 50)) = 0"
  by code_simp

end
